theory Spec2Isabelle
  imports Main "HOL-Library.Sublist"
begin

section \<open>Browser automation calls, exceptions and the recorded run\<close>

text \<open>
  The four scripts under \<^verbatim>\<open>verification/\<close> are straight-line sequences of calls into the
  browser automation library, wrapped in \<^verbatim>\<open>try\<close>/\<^verbatim>\<open>except\<close>/\<^verbatim>\<open>finally\<close>. Every call either returns
  or raises. An exception is a value: \<open>TimeoutError\<close> is the library's "marker not found within
  timeout", \<open>OtherException\<close> is any other subclass of Python's \<^verbatim>\<open>Exception\<close> (a navigation
  error, a closed target, an I/O error of the screenshot), and \<open>NonException\<close> stands for what
  derives from \<^verbatim>\<open>BaseException\<close> only (\<^verbatim>\<open>KeyboardInterrupt\<close>, \<^verbatim>\<open>SystemExit\<close>): a bare \<^verbatim>\<open>except:\<close>
  catches it, \<^verbatim>\<open>except Exception\<close> does not. The string is what \<^verbatim>\<open>str(e)\<close> gives.
\<close>

datatype exn = TimeoutError string | OtherException string | NonException string

fun is_Exception :: "exn \<Rightarrow> bool" where
  "is_Exception (TimeoutError m) = True"
| "is_Exception (OtherException m) = True"
| "is_Exception (NonException m) = False"

fun str :: "exn \<Rightarrow> string" where
  "str (TimeoutError m) = m"
| "str (OtherException m) = m"
| "str (NonException m) = m"

text \<open>
  The calls the scripts make. \<open>Goto url t\<close> is \<^verbatim>\<open>page.goto(url, timeout=t)\<close> (\<open>None\<close> when the
  keyword is absent), \<open>WaitForSelector s t\<close> is \<^verbatim>\<open>page.wait_for_selector(s, timeout=t)\<close>,
  \<open>Print s\<close> is \<^verbatim>\<open>print(s)\<close> with the rendered text, \<open>Close\<close> is \<^verbatim>\<open>browser.close()\<close>.
\<close>

datatype call =
    Launch
  | NewPage
  | Goto string "nat option"
  | WaitForSelector string nat
  | IsVisible string
  | Fill string string
  | Click string
  | Screenshot string
  | Title
  | Content
  | Print string
  | Close

text \<open>A run is recorded as the list of calls made, each with how it ended.\<close>

datatype event = Did call | Failed call exn

fun call_of :: "event \<Rightarrow> call" where
  "call_of (Did c) = c"
| "call_of (Failed c e) = c"

type_synonym trace = "event list"

text \<open>
  The browser and the application under test are outside the repository. They are a
  parameter: \<open>fails w h c\<close> says whether call \<open>c\<close>, made after the history \<open>h\<close>, raises, and
  the other fields give the values that \<^verbatim>\<open>is_visible\<close>, \<^verbatim>\<open>title\<close> and \<^verbatim>\<open>content\<close> return.
  Theorems quantify over every \<open>world\<close>.
\<close>

record world =
  fails :: "trace \<Rightarrow> call \<Rightarrow> exn option"
  visible :: "trace \<Rightarrow> string \<Rightarrow> bool"
  title_text :: "trace \<Rightarrow> string"
  content_text :: "trace \<Rightarrow> string"

text \<open>
  A piece of script maps the world and the history so far to its result (\<open>Inl e\<close>: the
  exception \<open>e\<close> propagates; \<open>Inr v\<close>: it completes with \<open>v\<close>) and the events it adds.
\<close>

type_synonym 'a prog = "world \<Rightarrow> trace \<Rightarrow> (exn + 'a) \<times> trace"

definition invoke :: "call \<Rightarrow> unit prog" where
  "invoke c w h =
     (case fails w h c of
        None \<Rightarrow> (Inr (), [Did c])
      | Some e \<Rightarrow> (Inl e, [Failed c e]))"

text \<open>
  \<^verbatim>\<open>print\<close> writes a line to standard output. It raises \<^verbatim>\<open>OSError\<close> when standard output
  cannot be written (a closed descriptor, a broken pipe), so the world is asked about it
  like about any other call.
\<close>

definition print :: "string \<Rightarrow> unit prog" where
  "print s = invoke (Print s)"

definition is_visible :: "string \<Rightarrow> bool prog" where
  "is_visible sel w h =
     (case fails w h (IsVisible sel) of
        None \<Rightarrow> (Inr (visible w h sel), [Did (IsVisible sel)])
      | Some e \<Rightarrow> (Inl e, [Failed (IsVisible sel) e]))"

definition title :: "string prog" where
  "title w h =
     (case fails w h Title of
        None \<Rightarrow> (Inr (title_text w h), [Did Title])
      | Some e \<Rightarrow> (Inl e, [Failed Title e]))"

definition content :: "string prog" where
  "content w h =
     (case fails w h Content of
        None \<Rightarrow> (Inr (content_text w h), [Did Content])
      | Some e \<Rightarrow> (Inl e, [Failed Content e]))"

text \<open>\<open>and_then m f\<close>: evaluate \<open>m\<close>, then continue with its value; an exception ends it.\<close>

definition and_then :: "'a prog \<Rightarrow> ('a \<Rightarrow> 'b prog) \<Rightarrow> 'b prog" where
  "and_then m f w h =
     (case m w h of
        (Inl e, x) \<Rightarrow> (Inl e, x)
      | (Inr v, x) \<Rightarrow> (case f v w (h @ x) of (r, y) \<Rightarrow> (r, x @ y)))"

text \<open>A block of statements runs them in order and stops at the first that raises.\<close>

fun block :: "unit prog list \<Rightarrow> unit prog" where
  "block [] w h = (Inr (), [])"
| "block (m # ms) w h =
     (case m w h of
        (Inl e, x) \<Rightarrow> (Inl e, x)
      | (Inr u, x) \<Rightarrow> (case block ms w (h @ x) of (r, y) \<Rightarrow> (r, x @ y)))"

text \<open>
  \<^verbatim>\<open>try: body except <class>: handler\<close>. \<open>catches\<close> is the class test of the clause (a bare
  \<^verbatim>\<open>except:\<close> catches everything). An exception raised by the handler itself propagates.
\<close>

definition try_except :: "unit prog \<Rightarrow> (exn \<Rightarrow> bool) \<Rightarrow> (exn \<Rightarrow> unit prog) \<Rightarrow> unit prog" where
  "try_except body catches handler w h =
     (case body w h of
        (Inl e, x) \<Rightarrow>
          (if catches e then (case handler e w (h @ x) of (r, y) \<Rightarrow> (r, x @ y))
           else (Inl e, x))
      | (Inr u, x) \<Rightarrow> (Inr u, x))"

text \<open>
  \<^verbatim>\<open>try: body finally: final\<close>. \<open>final\<close> runs whatever \<open>body\<close> did; afterwards the result of
  \<open>body\<close> stands, unless \<open>final\<close> itself raises.
\<close>

definition try_finally :: "unit prog \<Rightarrow> unit prog \<Rightarrow> unit prog" where
  "try_finally body final w h =
     (case body w h of
        (r, x) \<Rightarrow>
          (case final w (h @ x) of
             (Inl e, y) \<Rightarrow> (Inl e, x @ y)
           | (Inr u, y) \<Rightarrow> (r, x @ y)))"

definition bare_except :: "exn \<Rightarrow> bool" where
  "bare_except e = True"

definition url :: string where
  "url = ''http://localhost:4173''"

section \<open>The scripts\<close>

subsection \<open>\<^verbatim>\<open>verify_app.py\<close>\<close>

definition verify_app_auth :: "unit prog" where
  "verify_app_auth =
     try_except
       (block [
          invoke (WaitForSelector ''text=Access Protocol'' 5000),
          print ''Auth screen detected'',
          invoke (Screenshot ''verification/1_auth_screen.png''),
          invoke (Fill ''input[type=\"email\"]'' ''admin@rockhound.com''),
          invoke (Fill ''input[type=\"password\"]'' ''admin''),
          invoke (Click ''button:has-text(\"Initialize Session\")'')])
       bare_except
       (\<lambda>e. print ''Auth screen not found or already logged in'')"

definition verify_app_body :: "unit prog" where
  "verify_app_body =
     block [
       invoke (Goto url None),
       verify_app_auth,
       invoke (WaitForSelector ''text=SYSTEM ACTIVE'' 10000),
       print ''Scanner view detected'',
       invoke (Screenshot ''verification/2_scanner_view.png''),
       invoke (Click ''header div.cursor-pointer''),
       invoke (WaitForSelector ''text=Operative Profile'' 5000),
       print ''Profile view detected'',
       invoke (Screenshot ''verification/3_profile_view.png''),
       invoke (Click ''button:has(svg.lucide-x)''),
       invoke (Click ''button:has(svg.lucide-box)''),
       invoke (WaitForSelector ''text=Vault'' 5000),
       print ''Collection view detected'',
       invoke (Screenshot ''verification/4_collection_view.png'')]"

definition verify_app_handler :: "exn \<Rightarrow> unit prog" where
  "verify_app_handler e =
     block [
       print (''Error: '' @ str e),
       invoke (Screenshot ''verification/error.png'')]"

definition verify_app :: "unit prog" where
  "verify_app =
     block [
       invoke Launch,
       invoke NewPage,
       try_finally
         (try_except verify_app_body is_Exception verify_app_handler)
         (invoke Close)]"

subsection \<open>\<^verbatim>\<open>verify_app_debug.py\<close>\<close>

definition verify_app_debug_body :: "unit prog" where
  "verify_app_debug_body =
     block [
       print ''Navigating to app...'',
       invoke (Goto url (Some 60000)),
       print ''Waiting for body...'',
       invoke (WaitForSelector ''body'' 10000),
       invoke (Screenshot ''verification/debug_state.png''),
       and_then title (\<lambda>t. print (''Page Title: '' @ t)),
       and_then content (\<lambda>c.
         block [
           print (''Page Content Snippet: '' @ take 500 c),
           (if sublist ''Access Protocol'' c then print ''Auth screen detected via text check''
            else if sublist ''SYSTEM ACTIVE'' c then print ''Scanner view detected via text check''
            else print ''Unknown state'')])]"

definition verify_app_debug_handler :: "exn \<Rightarrow> unit prog" where
  "verify_app_debug_handler e = print (''Error: '' @ str e)"

definition verify_app_debug :: "unit prog" where
  "verify_app_debug =
     block [
       invoke Launch,
       invoke NewPage,
       try_finally
         (try_except verify_app_debug_body is_Exception verify_app_debug_handler)
         (invoke Close)]"

subsection \<open>\<^verbatim>\<open>verify_fix.py\<close>\<close>

definition verify_fix_scanner :: "unit prog" where
  "verify_fix_scanner =
     try_except
       (block [
          invoke (WaitForSelector ''text=SYSTEM ACTIVE'' 10000),
          print ''App loaded successfully (Scanner)'',
          invoke (Screenshot ''verification/fixed_load.png'')])
       bare_except
       (\<lambda>e. block [
          print ''Still stuck or unknown state'',
          invoke (Screenshot ''verification/still_stuck.png''),
          and_then content (\<lambda>c. print (take 500 c))])"

definition verify_fix_load :: "unit prog" where
  "verify_fix_load =
     try_except
       (block [
          invoke (WaitForSelector ''text=ROCKHOUND'' 10000),
          print ''App loaded successfully (Auth screen)'',
          invoke (Screenshot ''verification/fixed_load.png'')])
       bare_except
       (\<lambda>e. verify_fix_scanner)"

definition verify_fix_body :: "unit prog" where
  "verify_fix_body =
     block [
       print ''Navigating to app...'',
       invoke (Goto url (Some 60000)),
       verify_fix_load]"

definition verify_fix_handler :: "exn \<Rightarrow> unit prog" where
  "verify_fix_handler e = print (''Error: '' @ str e)"

definition verify_fix :: "unit prog" where
  "verify_fix =
     block [
       invoke Launch,
       invoke NewPage,
       try_finally
         (try_except verify_fix_body is_Exception verify_fix_handler)
         (invoke Close)]"

subsection \<open>\<^verbatim>\<open>verify_revolutionary.py\<close>\<close>

definition verify_rev_splash :: "unit prog" where
  "verify_rev_splash =
     try_except
       (block [
          invoke (WaitForSelector ''text=INITIALIZING KERNEL...'' 10000),
          print ''Splash screen detected'',
          invoke (Screenshot ''verification/1_splash.png'')])
       bare_except
       (\<lambda>e. print ''Splash screen skipped or missed'')"

definition verify_rev_auth :: "unit prog" where
  "verify_rev_auth =
     try_except
       (block [
          invoke (WaitForSelector ''text=ROCKHOUND'' 10000),
          and_then (is_visible ''button:has-text(\"Initialize Protocol\")'') (\<lambda>b.
            if b then
              block [
                print ''Auth screen detected'',
                invoke (Screenshot ''verification/2_auth.png''),
                invoke (Fill ''input[type=\"email\"]'' ''admin@rockhound.com''),
                invoke (Fill ''input[type=\"password\"]'' ''admin''),
                invoke (Click ''button:has-text(\"Authenticate\")'')]
            else block [])])
       bare_except
       (\<lambda>e. print ''Auth screen not found or already logged in'')"

definition verify_rev_body :: "unit prog" where
  "verify_rev_body =
     block [
       print ''Navigating to app...'',
       invoke (Goto url (Some 60000)),
       verify_rev_splash,
       verify_rev_auth,
       invoke (WaitForSelector ''text=SYSTEM ACTIVE'' 15000),
       print ''Scanner HUD detected'',
       invoke (Screenshot ''verification/3_scanner_hud.png''),
       invoke (Click ''header button:has(svg.lucide-terminal)''),
       invoke (WaitForSelector ''text=Mainframe Control'' 5000),
       print ''Admin Dashboard detected'',
       invoke (Screenshot ''verification/4_admin_dashboard.png''),
       invoke (Click ''button:has(svg.lucide-arrow-left)''),
       invoke (Click ''header button:has(svg.lucide-cloud-sun)''),
       invoke (WaitForSelector ''text=Planetary Conditions'' 5000),
       print ''Weather Dashboard detected'',
       invoke (Screenshot ''verification/5_weather_dashboard.png'')]"

definition verify_rev_handler :: "exn \<Rightarrow> unit prog" where
  "verify_rev_handler e =
     block [
       print (''Error: '' @ str e),
       invoke (Screenshot ''verification/error_rev.png'')]"

definition verify_app_revolutionary :: "unit prog" where
  "verify_app_revolutionary =
     block [
       invoke Launch,
       invoke NewPage,
       try_finally
         (try_except verify_rev_body is_Exception verify_rev_handler)
         (invoke Close)]"

text \<open>
  A script is started with an empty history (\<^verbatim>\<open>if __name__ == "__main__": ...\<close>). \<open>result\<close>
  is how the entry point ends, \<open>run\<close> the events of the whole run.
\<close>

definition result :: "unit prog \<Rightarrow> world \<Rightarrow> exn + unit" where
  "result p w = fst (p w [])"

definition run :: "unit prog \<Rightarrow> world \<Rightarrow> trace" where
  "run p w = snd (p w [])"

section \<open>Properties of runs\<close>

text \<open>
  \<open>after S Q xs\<close>: whenever an event satisfying \<open>S\<close> occurs in \<open>xs\<close>, \<open>Q\<close> holds of it and
  of the events that follow it. \<open>post m Q\<close>: in every world and after every history, the
  result of \<open>m\<close> and the events it adds satisfy \<open>Q\<close>.
\<close>

definition after :: "('a \<Rightarrow> bool) \<Rightarrow> ('a \<Rightarrow> 'a list \<Rightarrow> bool) \<Rightarrow> 'a list \<Rightarrow> bool" where
  "after S Q xs \<longleftrightarrow> (\<forall>i<length xs. S (xs ! i) \<longrightarrow> Q (xs ! i) (drop (Suc i) xs))"

definition post :: "'a prog \<Rightarrow> ((exn + 'a) \<Rightarrow> trace \<Rightarrow> bool) \<Rightarrow> bool" where
  "post m Q \<longleftrightarrow> (\<forall>w h. Q (fst (m w h)) (snd (m w h)))"

definition emits :: "(event \<Rightarrow> bool) \<Rightarrow> 'a prog \<Rightarrow> bool" where
  "emits P m \<longleftrightarrow> post m (\<lambda>r x. \<forall>ev\<in>set x. P ev)"

definition halts :: "(event \<Rightarrow> bool) \<Rightarrow> 'a prog \<Rightarrow> bool" where
  "halts S m \<longleftrightarrow> post m (\<lambda>r x. after S (\<lambda>ev rest. rest = [] \<and> (\<exists>c e. ev = Failed c e \<and> r = Inl e)) x)"

definition scenario :: "unit prog \<Rightarrow> (exn \<Rightarrow> unit prog) \<Rightarrow> unit prog" where
  "scenario B H =
     block [invoke Launch, invoke NewPage,
            try_finally (try_except B is_Exception H) (invoke Close)]"

definition guarded :: "(exn \<Rightarrow> exn + unit \<Rightarrow> trace \<Rightarrow> bool) \<Rightarrow> exn + unit \<Rightarrow> exn + unit \<Rightarrow> trace \<Rightarrow> bool" where
  "guarded QH rb rh xh \<longleftrightarrow>
     (case rb of
        Inr u \<Rightarrow> rh = Inr () \<and> xh = []
      | Inl e \<Rightarrow> if is_Exception e then QH e rh xh else rh = Inl e \<and> xh = [])"

definition closing :: "exn + unit \<Rightarrow> exn + unit \<Rightarrow> event \<Rightarrow> bool" where
  "closing rh r cl \<longleftrightarrow> (cl = Did Close \<and> r = rh) \<or> (\<exists>e. cl = Failed Close e \<and> r = Inl e)"

section \<open>Vocabulary of the claims\<close>

text \<open>How many times \<^verbatim>\<open>browser.close()\<close> was called in a run.\<close>

definition closes :: "trace \<Rightarrow> nat" where
  "closes tr = length (filter (\<lambda>ev. call_of ev = Close) tr)"

text \<open>
  \<open>returned ev\<close>: the call of the event came back without raising. \<open>straight cs tr\<close>: \<open>tr\<close> is
  what running the calls \<open>cs\<close> one after the other records, each made only if the one before
  it returned, nothing else in between or after. \<open>proceeds cs tr\<close>: \<open>tr\<close> begins like that; what
  comes after the calls \<open>cs\<close>, or after the first of them that raised, is left open.
\<close>

fun returned :: "event \<Rightarrow> bool" where
  "returned (Did c) = True"
| "returned (Failed c e) = False"

fun straight :: "call list \<Rightarrow> trace \<Rightarrow> bool" where
  "straight [] tr = (tr = [])"
| "straight (c # cs) [] = False"
| "straight (c # cs) (Did c' # tr) = (c' = c \<and> straight cs tr)"
| "straight (c # cs) (Failed c' e # tr) = (c' = c \<and> tr = [])"

fun proceeds :: "call list \<Rightarrow> trace \<Rightarrow> bool" where
  "proceeds [] tr = True"
| "proceeds (c # cs) [] = False"
| "proceeds (c # cs) (Did c' # tr) = (c' = c \<and> proceeds cs tr)"
| "proceeds (c # cs) (Failed c' e # tr) = (c' = c)"

fun failed_in :: "call list \<Rightarrow> event \<Rightarrow> bool" where
  "failed_in cs (Failed c e) = (c \<in> set cs)"
| "failed_in cs (Did c) = False"

definition starts :: "call list \<Rightarrow> 'a prog \<Rightarrow> bool" where
  "starts K m \<longleftrightarrow> post m (\<lambda>r x. prefix K (map call_of x))"

definition ends_with :: "(event \<Rightarrow> bool) \<Rightarrow> call list \<Rightarrow> 'a prog \<Rightarrow> bool" where
  "ends_with S K m \<longleftrightarrow>
     post m (\<lambda>r x. after S (\<lambda>ev rest. straight K rest \<and> ((\<exists>v. r = Inr v) \<longleftrightarrow> list_all returned rest)) x)"

definition swallowed :: "(event \<Rightarrow> bool) \<Rightarrow> call list \<Rightarrow> 'a prog \<Rightarrow> bool" where
  "swallowed S K m \<longleftrightarrow> post m (\<lambda>r x. after S (\<lambda>ev rest. proceeds K rest) x)"

text \<open>
  The screenshot files a run wrote, in order: the paths of the screenshot calls that
  returned. The directory is a set of paths; a file written again replaces the old one.
\<close>

fun written :: "trace \<Rightarrow> string list" where
  "written [] = []"
| "written (Did (Screenshot path) # tr) = path # written tr"
| "written (ev # tr) = written tr"

definition files_after :: "string set \<Rightarrow> trace \<Rightarrow> string set" where
  "files_after fs tr = fs \<union> set (written tr)"

text \<open>The four entry points.\<close>

datatype script = VerifyApp | VerifyAppDebug | VerifyFix | VerifyRevolutionary

fun program :: "script \<Rightarrow> unit prog" where
  "program VerifyApp = verify_app"
| "program VerifyAppDebug = verify_app_debug"
| "program VerifyFix = verify_fix"
| "program VerifyRevolutionary = verify_app_revolutionary"

text \<open>
  Per script, what the claims speak about. \<open>failure_files\<close>: the screenshot its top-level
  handler takes. \<open>guarded_calls\<close>: the calls made inside the \<^verbatim>\<open>try\<close> part of one of its inner
  \<^verbatim>\<open>try\<close>/\<^verbatim>\<open>except:\<close> statements. \<open>error_print c\<close>: \<open>c\<close> prints a text that begins like the
  handler's line. \<open>unguarded s c\<close>: \<open>c\<close> is none of the guarded calls, and is not a call made
  outside the top-level \<^verbatim>\<open>try\<close> body (launch, page creation, the handler's two calls, close).
\<close>

fun failure_files :: "script \<Rightarrow> string list" where
  "failure_files VerifyApp = [''verification/error.png'']"
| "failure_files VerifyAppDebug = []"
| "failure_files VerifyFix = []"
| "failure_files VerifyRevolutionary = [''verification/error_rev.png'']"

definition failure_shots :: "script \<Rightarrow> call list" where
  "failure_shots s = map Screenshot (failure_files s)"

fun guarded_calls :: "script \<Rightarrow> call list" where
  "guarded_calls VerifyApp =
     [WaitForSelector ''text=Access Protocol'' 5000,
      Print ''Auth screen detected'',
      Screenshot ''verification/1_auth_screen.png'',
      Fill ''input[type=\"email\"]'' ''admin@rockhound.com'',
      Fill ''input[type=\"password\"]'' ''admin'',
      Click ''button:has-text(\"Initialize Session\")'']"
| "guarded_calls VerifyAppDebug = []"
| "guarded_calls VerifyFix =
     [WaitForSelector ''text=ROCKHOUND'' 10000,
      Print ''App loaded successfully (Auth screen)'',
      Screenshot ''verification/fixed_load.png'',
      WaitForSelector ''text=SYSTEM ACTIVE'' 10000,
      Print ''App loaded successfully (Scanner)'']"
| "guarded_calls VerifyRevolutionary =
     [WaitForSelector ''text=INITIALIZING KERNEL...'' 10000,
      Print ''Splash screen detected'',
      Screenshot ''verification/1_splash.png'',
      WaitForSelector ''text=ROCKHOUND'' 10000,
      IsVisible ''button:has-text(\"Initialize Protocol\")'',
      Print ''Auth screen detected'',
      Screenshot ''verification/2_auth.png'',
      Fill ''input[type=\"email\"]'' ''admin@rockhound.com'',
      Fill ''input[type=\"password\"]'' ''admin'',
      Click ''button:has-text(\"Authenticate\")'']"

fun error_print :: "call \<Rightarrow> bool" where
  "error_print (Print m) = prefix ''Error: '' m"
| "error_print c = False"

definition outside_body :: "script \<Rightarrow> call \<Rightarrow> bool" where
  "outside_body s c \<longleftrightarrow>
     c \<in> set [Launch, NewPage, Close] \<or> c \<in> set (failure_shots s) \<or> error_print c"

definition unguarded :: "script \<Rightarrow> call \<Rightarrow> bool" where
  "unguarded s c \<longleftrightarrow> c \<notin> set (guarded_calls s) \<and> \<not> outside_body s c"

fun failed_unguarded :: "script \<Rightarrow> event \<Rightarrow> bool" where
  "failed_unguarded s (Failed c e) = unguarded s c"
| "failed_unguarded s (Did c) = False"

text \<open>
  The marker waits that no inner \<^verbatim>\<open>except:\<close> guards, and the guarded waits of the optional
  steps, each with the calls that follow a miss (\<^verbatim>\<open>verify_fix.py\<close> prints nothing when its
  auth-screen wait misses and goes on to its scanner wait).
\<close>

fun mandatory_waits :: "script \<Rightarrow> call list" where
  "mandatory_waits VerifyApp =
     [WaitForSelector ''text=SYSTEM ACTIVE'' 10000,
      WaitForSelector ''text=Operative Profile'' 5000,
      WaitForSelector ''text=Vault'' 5000]"
| "mandatory_waits VerifyAppDebug = [WaitForSelector ''body'' 10000]"
| "mandatory_waits VerifyFix = []"
| "mandatory_waits VerifyRevolutionary =
     [WaitForSelector ''text=SYSTEM ACTIVE'' 15000,
      WaitForSelector ''text=Mainframe Control'' 5000,
      WaitForSelector ''text=Planetary Conditions'' 5000]"

fun optional_waits :: "script \<Rightarrow> (call \<times> call list) list" where
  "optional_waits VerifyApp =
     [(WaitForSelector ''text=Access Protocol'' 5000,
       [Print ''Auth screen not found or already logged in'',
        WaitForSelector ''text=SYSTEM ACTIVE'' 10000])]"
| "optional_waits VerifyRevolutionary =
     [(WaitForSelector ''text=ROCKHOUND'' 10000,
       [Print ''Auth screen not found or already logged in'',
        WaitForSelector ''text=SYSTEM ACTIVE'' 15000]),
      (WaitForSelector ''text=INITIALIZING KERNEL...'' 10000,
       [Print ''Splash screen skipped or missed'',
        WaitForSelector ''text=ROCKHOUND'' 10000])]"
| "optional_waits VerifyFix =
     [(WaitForSelector ''text=ROCKHOUND'' 10000,
       [WaitForSelector ''text=SYSTEM ACTIVE'' 10000])]"
| "optional_waits VerifyAppDebug = []"

text \<open>The last call of each script's \<^verbatim>\<open>try\<close> body on its success path.\<close>

fun final_step :: "script \<Rightarrow> call" where
  "final_step VerifyApp = Screenshot ''verification/4_collection_view.png''"
| "final_step VerifyAppDebug = Print ''Scanner view detected via text check''"
| "final_step VerifyFix = Screenshot ''verification/fixed_load.png''"
| "final_step VerifyRevolutionary = Screenshot ''verification/5_weather_dashboard.png''"

text \<open>The calls of the \<^verbatim>\<open>try\<close> part of the optional blocks.\<close>

definition verify_app_auth_calls :: "call list" where
  "verify_app_auth_calls =
     [WaitForSelector ''text=Access Protocol'' 5000,
      Print ''Auth screen detected'',
      Screenshot ''verification/1_auth_screen.png'',
      Fill ''input[type=\"email\"]'' ''admin@rockhound.com'',
      Fill ''input[type=\"password\"]'' ''admin'',
      Click ''button:has-text(\"Initialize Session\")'']"

definition verify_rev_splash_calls :: "call list" where
  "verify_rev_splash_calls =
     [WaitForSelector ''text=INITIALIZING KERNEL...'' 10000,
      Print ''Splash screen detected'',
      Screenshot ''verification/1_splash.png'']"

definition verify_rev_auth_calls :: "call list" where
  "verify_rev_auth_calls =
     [WaitForSelector ''text=ROCKHOUND'' 10000,
      IsVisible ''button:has-text(\"Initialize Protocol\")'',
      Print ''Auth screen detected'',
      Screenshot ''verification/2_auth.png'',
      Fill ''input[type=\"email\"]'' ''admin@rockhound.com'',
      Fill ''input[type=\"password\"]'' ''admin'',
      Click ''button:has-text(\"Authenticate\")'']"

text \<open>
  \<open>harmless s ev\<close>: the event is a call that returned, or one that raised an exception of
  class \<^verbatim>\<open>Exception\<close> inside the top-level \<^verbatim>\<open>try\<close> body.
\<close>

fun harmless :: "script \<Rightarrow> event \<Rightarrow> bool" where
  "harmless s (Did c) = True"
| "harmless s (Failed c e) = (is_Exception e \<and> \<not> outside_body s c)"

text \<open>
  The calls with a fixed text that each script can make, in the order of the source. Two
  prints of \<^verbatim>\<open>verify_app_debug.py\<close> write text of the page after a fixed heading, and the
  handlers print the text of the exception after "Error: ": these lines differ from every
  fixed line and are not listed. The last \<^verbatim>\<open>print\<close> of \<^verbatim>\<open>verify_fix.py\<close> writes page text
  with no heading, which may be any line: at its place, after the read of the content, the
  list of \<^verbatim>\<open>verify_fix.py\<close> has the four fixed lines of the script once more.
\<close>

fun script_order :: "script \<Rightarrow> call list" where
  "script_order VerifyApp =
     [Launch, NewPage,
      Goto url None,
      WaitForSelector ''text=Access Protocol'' 5000,
      Print ''Auth screen detected'',
      Screenshot ''verification/1_auth_screen.png'',
      Fill ''input[type=\"email\"]'' ''admin@rockhound.com'',
      Fill ''input[type=\"password\"]'' ''admin'',
      Click ''button:has-text(\"Initialize Session\")'',
      Print ''Auth screen not found or already logged in'',
      WaitForSelector ''text=SYSTEM ACTIVE'' 10000,
      Print ''Scanner view detected'',
      Screenshot ''verification/2_scanner_view.png'',
      Click ''header div.cursor-pointer'',
      WaitForSelector ''text=Operative Profile'' 5000,
      Print ''Profile view detected'',
      Screenshot ''verification/3_profile_view.png'',
      Click ''button:has(svg.lucide-x)'',
      Click ''button:has(svg.lucide-box)'',
      WaitForSelector ''text=Vault'' 5000,
      Print ''Collection view detected'',
      Screenshot ''verification/4_collection_view.png'',
      Screenshot ''verification/error.png'',
      Close]"
| "script_order VerifyAppDebug =
     [Launch, NewPage,
      Print ''Navigating to app...'',
      Goto url (Some 60000),
      Print ''Waiting for body...'',
      WaitForSelector ''body'' 10000,
      Screenshot ''verification/debug_state.png'',
      Title,
      Content,
      Print ''Auth screen detected via text check'',
      Print ''Scanner view detected via text check'',
      Print ''Unknown state'',
      Close]"
| "script_order VerifyFix =
     [Launch, NewPage,
      Print ''Navigating to app...'',
      Goto url (Some 60000),
      WaitForSelector ''text=ROCKHOUND'' 10000,
      Print ''App loaded successfully (Auth screen)'',
      Screenshot ''verification/fixed_load.png'',
      WaitForSelector ''text=SYSTEM ACTIVE'' 10000,
      Print ''App loaded successfully (Scanner)'',
      Screenshot ''verification/fixed_load.png'',
      Print ''Still stuck or unknown state'',
      Screenshot ''verification/still_stuck.png'',
      Content,
      Print ''Navigating to app...'',
      Print ''App loaded successfully (Auth screen)'',
      Print ''App loaded successfully (Scanner)'',
      Print ''Still stuck or unknown state'',
      Close]"
| "script_order VerifyRevolutionary =
     [Launch, NewPage,
      Print ''Navigating to app...'',
      Goto url (Some 60000),
      WaitForSelector ''text=INITIALIZING KERNEL...'' 10000,
      Print ''Splash screen detected'',
      Screenshot ''verification/1_splash.png'',
      Print ''Splash screen skipped or missed'',
      WaitForSelector ''text=ROCKHOUND'' 10000,
      IsVisible ''button:has-text(\"Initialize Protocol\")'',
      Print ''Auth screen detected'',
      Screenshot ''verification/2_auth.png'',
      Fill ''input[type=\"email\"]'' ''admin@rockhound.com'',
      Fill ''input[type=\"password\"]'' ''admin'',
      Click ''button:has-text(\"Authenticate\")'',
      Print ''Auth screen not found or already logged in'',
      WaitForSelector ''text=SYSTEM ACTIVE'' 15000,
      Print ''Scanner HUD detected'',
      Screenshot ''verification/3_scanner_hud.png'',
      Click ''header button:has(svg.lucide-terminal)'',
      WaitForSelector ''text=Mainframe Control'' 5000,
      Print ''Admin Dashboard detected'',
      Screenshot ''verification/4_admin_dashboard.png'',
      Click ''button:has(svg.lucide-arrow-left)'',
      Click ''header button:has(svg.lucide-cloud-sun)'',
      WaitForSelector ''text=Planetary Conditions'' 5000,
      Print ''Weather Dashboard detected'',
      Screenshot ''verification/5_weather_dashboard.png'',
      Screenshot ''verification/error_rev.png'',
      Close]"

text \<open>
  \<open>consumes keep m L L'\<close>: the kept calls of \<open>m\<close> are made in the order of the part of \<open>L\<close> that
  precedes \<open>L'\<close>, each at most as often as it is listed there.
\<close>

definition consumes :: "(call \<Rightarrow> bool) \<Rightarrow> 'a prog \<Rightarrow> call list \<Rightarrow> call list \<Rightarrow> bool" where
  "consumes keep m L L' \<longleftrightarrow>
     (\<exists>U. L = U @ L' \<and> post m (\<lambda>r x. subseq (filter keep (map call_of x)) U))"

text \<open>\<open>never_after a b cs\<close>: in \<open>cs\<close> no call \<open>a\<close> comes after a call \<open>b\<close>.\<close>

fun is_wait :: "call \<Rightarrow> bool" where
  "is_wait (WaitForSelector m t) = True"
| "is_wait c = False"

fun never_after :: "call \<Rightarrow> call \<Rightarrow> call list \<Rightarrow> bool" where
  "never_after a b [] = True"
| "never_after a b (c # cs) = ((c = b \<longrightarrow> a \<notin> set cs) \<and> never_after a b cs)"

text \<open>The paths of all \<^verbatim>\<open>page.screenshot\<close> calls in the text of each script.\<close>

fun screenshot_paths :: "script \<Rightarrow> string list" where
  "screenshot_paths VerifyApp =
     [''verification/1_auth_screen.png'', ''verification/2_scanner_view.png'',
      ''verification/3_profile_view.png'', ''verification/4_collection_view.png'',
      ''verification/error.png'']"
| "screenshot_paths VerifyAppDebug = [''verification/debug_state.png'']"
| "screenshot_paths VerifyFix =
     [''verification/fixed_load.png'', ''verification/still_stuck.png'']"
| "screenshot_paths VerifyRevolutionary =
     [''verification/1_splash.png'', ''verification/2_auth.png'',
      ''verification/3_scanner_hud.png'', ''verification/4_admin_dashboard.png'',
      ''verification/5_weather_dashboard.png'', ''verification/error_rev.png'']"

fun is_screenshot :: "call \<Rightarrow> bool" where
  "is_screenshot (Screenshot p) = True"
| "is_screenshot c = False"

text \<open>An interaction with the page: filling a field or clicking.\<close>

fun interaction :: "call \<Rightarrow> bool" where
  "interaction (Fill sel v) = True"
| "interaction (Click sel) = True"
| "interaction c = False"

text \<open>
  Some worlds. In \<open>calm\<close> no call raises, the auth form is visible and the page shows the
  scanner. In \<open>raising fs\<close> the calls listed in \<open>fs\<close> raise the exception listed with them,
  every time they are made, and no other call raises.
\<close>

definition calm :: world where
  "calm = \<lparr>fails = (\<lambda>h c. None), visible = (\<lambda>h s. True),
           title_text = (\<lambda>h. ''ROCKHOUND''),
           content_text = (\<lambda>h. ''<html>SYSTEM ACTIVE</html>'')\<rparr>"

definition raising :: "(call \<times> exn) list \<Rightarrow> world" where
  "raising fs = calm\<lparr>fails := (\<lambda>h c. map_of fs c)\<rparr>"

text \<open>A marker that never appears: the wait for it times out.\<close>

definition misses :: "call \<Rightarrow> world" where
  "misses c = raising [(c, TimeoutError ''Timeout exceeded.'')]"

text \<open>
  \<open>scanner_missing\<close>: the scanner view never comes up. \<open>body_missing\<close>: the page has no body.
  \<open>server_down\<close>: the application is not running and \<^verbatim>\<open>page.goto\<close> raises a navigation error.
  \<open>skips_auth\<close>: the application is already logged in, neither the splash nor the auth
  markers appear. \<open>login_broken\<close>: the auth screen is there but the click that submits the
  form fails. \<open>interrupted\<close>: the user presses Ctrl-C during the navigation.
  \<open>error_shot_fails\<close>: the scanner view never comes up and the screenshot of the handler
  cannot be written. \<open>stdout_closed\<close>: standard output is closed, every \<^verbatim>\<open>print\<close> raises
  \<^verbatim>\<open>OSError\<close>; in \<open>pipe_breaks\<close> it is the handler's \<^verbatim>\<open>print\<close> that finds the pipe closed, after
  the scanner view did not come up, and in \<open>skips_auth_pipe_breaks\<close> it is the \<^verbatim>\<open>print\<close> that
  logs the missing auth screen, and the handler's \<^verbatim>\<open>print\<close> after it.
\<close>

definition scanner_missing :: world where
  "scanner_missing =
     raising [(WaitForSelector ''text=SYSTEM ACTIVE'' 10000, TimeoutError ''Timeout 10000ms exceeded.''),
              (WaitForSelector ''text=SYSTEM ACTIVE'' 15000, TimeoutError ''Timeout 15000ms exceeded.'')]"

definition body_missing :: world where
  "body_missing =
     raising [(WaitForSelector ''body'' 10000, TimeoutError ''Timeout 10000ms exceeded.'')]"

definition server_down :: world where
  "server_down =
     raising [(Goto url None, OtherException ''net::ERR_CONNECTION_REFUSED''),
              (Goto url (Some 60000), OtherException ''net::ERR_CONNECTION_REFUSED'')]"

definition skips_auth :: world where
  "skips_auth =
     raising [(WaitForSelector ''text=Access Protocol'' 5000, TimeoutError ''Timeout exceeded.''),
              (WaitForSelector ''text=ROCKHOUND'' 10000, TimeoutError ''Timeout exceeded.''),
              (WaitForSelector ''text=INITIALIZING KERNEL...'' 10000, TimeoutError ''Timeout exceeded.'')]"

definition login_broken :: world where
  "login_broken =
     raising [(Click ''button:has-text(\"Initialize Session\")'',
               OtherException ''Element is not attached to the DOM'')]"

definition interrupted :: world where
  "interrupted =
     raising [(Goto url None, NonException ''KeyboardInterrupt''),
              (Goto url (Some 60000), NonException ''KeyboardInterrupt'')]"

definition error_shot_fails :: world where
  "error_shot_fails =
     raising [(WaitForSelector ''text=SYSTEM ACTIVE'' 10000, TimeoutError ''Timeout 10000ms exceeded.''),
              (Screenshot ''verification/error.png'', OtherException ''No such file or directory'')]"

definition pipe_breaks :: world where
  "pipe_breaks =
     raising [(WaitForSelector ''text=SYSTEM ACTIVE'' 10000, TimeoutError ''Timeout 10000ms exceeded.''),
              (Print ''Error: Timeout 10000ms exceeded.'', OtherException ''[Errno 32] Broken pipe'')]"

definition skips_auth_pipe_breaks :: world where
  "skips_auth_pipe_breaks =
     raising [(WaitForSelector ''text=Access Protocol'' 5000, TimeoutError ''Timeout exceeded.''),
              (Print ''Auth screen not found or already logged in'',
               OtherException ''[Errno 32] Broken pipe''),
              (Print ''Error: [Errno 32] Broken pipe'', OtherException ''[Errno 32] Broken pipe'')]"

definition stdout_closed :: world where
  "stdout_closed = calm\<lparr>fails := (\<lambda>h c.
      case c of Print s \<Rightarrow> Some (OtherException ''[Errno 9] Bad file descriptor'') | _ \<Rightarrow> None)\<rparr>"

text \<open>
  \<open>records m\<close>: an exception that leaves \<open>m\<close> was raised by one of the calls \<open>m\<close> recorded.
  \<open>prints_on_success m\<close>: when \<open>m\<close> completes, one of its \<^verbatim>\<open>print\<close> calls has returned.
\<close>

definition records :: "'a prog \<Rightarrow> bool" where
  "records m \<longleftrightarrow> post m (\<lambda>r x. \<forall>e. r = Inl e \<longrightarrow> (\<exists>c. Failed c e \<in> set x))"

definition prints_on_success :: "'a prog \<Rightarrow> bool" where
  "prints_on_success m \<longleftrightarrow>
     post m (\<lambda>r x. (\<exists>v. r = Inr v) \<longrightarrow> (\<exists>text. Did (Print text) \<in> set x))"

text \<open>The directory after a series of runs, one after the other.\<close>

fun files_after_runs :: "string set \<Rightarrow> trace list \<Rightarrow> string set" where
  "files_after_runs fs [] = fs"
| "files_after_runs fs (tr # trs) = files_after_runs (files_after fs tr) trs"

fun is_print :: "call \<Rightarrow> bool" where
  "is_print (Print text) = True"
| "is_print c = False"

text \<open>
  \<open>halts_first m\<close>: \<open>m\<close> makes at least one call, and if its first call raises, that is all
  \<open>m\<close> does and the exception leaves \<open>m\<close>. \<open>halts_next S m\<close>: the same of what follows an
  event \<open>S\<close> in \<open>m\<close>.
\<close>

definition halts_first :: "'a prog \<Rightarrow> bool" where
  "halts_first m \<longleftrightarrow>
     post m (\<lambda>r x. x \<noteq> [] \<and> (\<forall>c e rest. x = Failed c e # rest \<longrightarrow> rest = [] \<and> r = Inl e))"

definition halts_next :: "(event \<Rightarrow> bool) \<Rightarrow> 'a prog \<Rightarrow> bool" where
  "halts_next S m \<longleftrightarrow>
     post m (\<lambda>r x. after S (\<lambda>ev rest. rest \<noteq> []
        \<and> (\<forall>c e rest'. rest = Failed c e # rest' \<longrightarrow> rest' = [] \<and> r = Inl e)) x)"

text \<open>
  \<open>error_page\<close>: the application answers with an error page and none of the markers
  appears; the reader of standard output is gone by the time \<^verbatim>\<open>verify_fix.py\<close> prints the
  page text.
\<close>

definition error_page :: world where
  "error_page = raising
     [(WaitForSelector ''text=ROCKHOUND'' 10000, TimeoutError ''Timeout exceeded.''),
      (WaitForSelector ''text=SYSTEM ACTIVE'' 10000, TimeoutError ''Timeout exceeded.''),
      (Print ''Error: 404 Not Found'', OtherException ''[Errno 32] Broken pipe''),
      (Print ''Error: [Errno 32] Broken pipe'', OtherException ''[Errno 32] Broken pipe'')]
     \<lparr>content_text := (\<lambda>h. ''Error: 404 Not Found'')\<rparr>"

text \<open>
  \<open>close_fails_too\<close>: as \<open>error_shot_fails\<close>, and the browser has crashed, so that
  \<^verbatim>\<open>browser.close()\<close> raises as well.
\<close>

definition close_fails_too :: world where
  "close_fails_too =
     raising [(WaitForSelector ''text=SYSTEM ACTIVE'' 10000, TimeoutError ''Timeout 10000ms exceeded.''),
              (Screenshot ''verification/error.png'', OtherException ''Target closed''),
              (Close, OtherException ''Browser has been closed'')]"

section \<open>Proof rules for the script combinators\<close>

lemma after_Nil [simp]: "after S Q []"
  by (simp add: after_def)

lemma after_Cons [simp]: "after S Q (x # xs) \<longleftrightarrow> (S x \<longrightarrow> Q x xs) \<and> after S Q xs"
  by (simp add: after_def All_less_Suc2)

lemma after_append: "after S Q (xs @ ys) \<longleftrightarrow> after S (\<lambda>e r. Q e (r @ ys)) xs \<and> after S Q ys"
  by (induction xs) auto

lemma after_mono: "after S Q xs \<Longrightarrow> (\<And>e r. S e \<Longrightarrow> Q e r \<Longrightarrow> Q' e r) \<Longrightarrow> after S Q' xs"
  by (induction xs) auto

lemma after_none: "(\<forall>ev\<in>set xs. \<not> S ev) \<Longrightarrow> after S Q xs"
  by (induction xs) auto

lemma after_False: "after S (\<lambda>e r. False) xs \<longleftrightarrow> (\<forall>ev\<in>set xs. \<not> S ev)"
  by (induction xs) auto

lemma postI: "(\<And>w h r x. m w h = (r, x) \<Longrightarrow> Q r x) \<Longrightarrow> post m Q"
  by (simp add: post_def)

lemma postD: "post m Q \<Longrightarrow> m w h = (r, x) \<Longrightarrow> Q r x"
  by (metis post_def fst_conv snd_conv)

lemma post_weaken: "post m Q \<Longrightarrow> (\<And>r x. Q r x \<Longrightarrow> Q' r x) \<Longrightarrow> post m Q'"
  by (simp add: post_def)

lemma post_conj: "post m Q \<Longrightarrow> post m Q' \<Longrightarrow> post m (\<lambda>r x. Q r x \<and> Q' r x)"
  by (simp add: post_def)

lemma post_invoke: "Q (Inr ()) [Did c] \<Longrightarrow> (\<And>e. Q (Inl e) [Failed c e]) \<Longrightarrow> post (invoke c) Q"
  by (simp add: post_def invoke_def split: option.splits)

lemma post_print:
  "Q (Inr ()) [Did (Print s)] \<Longrightarrow> (\<And>e. Q (Inl e) [Failed (Print s) e]) \<Longrightarrow> post (print s) Q"
  unfolding print_def by (rule post_invoke)

lemma post_is_visible:
  "(\<And>b. Q (Inr b) [Did (IsVisible s)]) \<Longrightarrow> (\<And>e. Q (Inl e) [Failed (IsVisible s) e]) \<Longrightarrow> post (is_visible s) Q"
  by (simp add: post_def is_visible_def split: option.splits)

lemma post_title:
  "(\<And>t. Q (Inr t) [Did Title]) \<Longrightarrow> (\<And>e. Q (Inl e) [Failed Title e]) \<Longrightarrow> post title Q"
  by (simp add: post_def title_def split: option.splits)

lemma post_content:
  "(\<And>t. Q (Inr t) [Did Content]) \<Longrightarrow> (\<And>e. Q (Inl e) [Failed Content e]) \<Longrightarrow> post content Q"
  by (simp add: post_def content_def split: option.splits)

lemma post_and_then:
  assumes "post m Q1" and "\<And>v. post (f v) (Q2 v)"
    and "\<And>e x. Q1 (Inl e) x \<Longrightarrow> Q (Inl e) x"
    and "\<And>v x r y. Q1 (Inr v) x \<Longrightarrow> Q2 v r y \<Longrightarrow> Q r (x @ y)"
  shows "post (and_then m f) Q"
proof (rule postI)
  fix w h r x
  assume run: "and_then m f w h = (r, x)"
  obtain r1 x1 where m: "m w h = (r1, x1)" by (cases "m w h")
  have q1: "Q1 r1 x1" using assms(1) m by (rule postD)
  show "Q r x"
  proof (cases r1)
    case (Inl e)
    with run m q1 assms(3) show ?thesis by (auto simp: and_then_def)
  next
    case (Inr v)
    obtain r2 x2 where f: "f v w (h @ x1) = (r2, x2)" by (cases "f v w (h @ x1)")
    have "Q2 v r2 x2" using assms(2) f by (rule postD)
    with run m f Inr q1 assms(4) show ?thesis by (auto simp: and_then_def)
  qed
qed

lemma post_block_Nil: "Q (Inr ()) [] \<Longrightarrow> post (block []) Q"
  by (simp add: post_def)

lemma post_block_Cons:
  assumes "post m Q1" and "post (block ms) Q2"
    and "\<And>e x. Q1 (Inl e) x \<Longrightarrow> Q (Inl e) x"
    and "\<And>x r y. Q1 (Inr ()) x \<Longrightarrow> Q2 r y \<Longrightarrow> Q r (x @ y)"
  shows "post (block (m # ms)) Q"
proof (rule postI)
  fix w h r x
  assume run: "block (m # ms) w h = (r, x)"
  obtain r1 x1 where m: "m w h = (r1, x1)" by (cases "m w h")
  have q1: "Q1 r1 x1" using assms(1) m by (rule postD)
  show "Q r x"
  proof (cases r1)
    case (Inl e)
    with run m q1 assms(3) show ?thesis by auto
  next
    case (Inr v)
    obtain r2 x2 where f: "block ms w (h @ x1) = (r2, x2)" by (cases "block ms w (h @ x1)")
    have "Q2 r2 x2" using assms(2) f by (rule postD)
    with run m f Inr q1 assms(4) show ?thesis by auto
  qed
qed

lemma post_try_except:
  assumes "post body Q1" and "\<And>e. catches e \<Longrightarrow> post (handler e) (Q2 e)"
    and "\<And>x. Q1 (Inr ()) x \<Longrightarrow> Q (Inr ()) x"
    and "\<And>e x. Q1 (Inl e) x \<Longrightarrow> \<not> catches e \<Longrightarrow> Q (Inl e) x"
    and "\<And>e x r y. Q1 (Inl e) x \<Longrightarrow> catches e \<Longrightarrow> Q2 e r y \<Longrightarrow> Q r (x @ y)"
  shows "post (try_except body catches handler) Q"
proof (rule postI)
  fix w h r x
  assume run: "try_except body catches handler w h = (r, x)"
  obtain r1 x1 where m: "body w h = (r1, x1)" by (cases "body w h")
  have q1: "Q1 r1 x1" using assms(1) m by (rule postD)
  show "Q r x"
  proof (cases r1)
    case (Inr v)
    with run m q1 assms(3) show ?thesis by (auto simp: try_except_def)
  next
    case (Inl e)
    show ?thesis
    proof (cases "catches e")
      case False
      with run m q1 Inl assms(4) show ?thesis by (auto simp: try_except_def)
    next
      case True
      obtain r2 x2 where f: "handler e w (h @ x1) = (r2, x2)" by (cases "handler e w (h @ x1)")
      have "Q2 e r2 x2" using assms(2)[OF True] f by (rule postD)
      with run m f Inl q1 True assms(5) show ?thesis by (auto simp: try_except_def)
    qed
  qed
qed

lemma post_try_finally:
  assumes "post body Q1" and "post final Q2"
    and "\<And>r x y. Q1 r x \<Longrightarrow> Q2 (Inr ()) y \<Longrightarrow> Q r (x @ y)"
    and "\<And>r x e y. Q1 r x \<Longrightarrow> Q2 (Inl e) y \<Longrightarrow> Q (Inl e) (x @ y)"
  shows "post (try_finally body final) Q"
proof (rule postI)
  fix w h r x
  assume run: "try_finally body final w h = (r, x)"
  obtain r1 x1 where m: "body w h = (r1, x1)" by (cases "body w h")
  have q1: "Q1 r1 x1" using assms(1) m by (rule postD)
  obtain r2 x2 where f: "final w (h @ x1) = (r2, x2)" by (cases "final w (h @ x1)")
  have q2: "Q2 r2 x2" using assms(2) f by (rule postD)
  show "Q r x"
  proof (cases r2)
    case (Inl e)
    with run m f q1 q2 assms(4) show ?thesis by (auto simp: try_finally_def)
  next
    case (Inr v)
    with run m f q1 q2 assms(3) show ?thesis by (auto simp: try_finally_def)
  qed
qed

lemma emits_invoke: "P (Did c) \<Longrightarrow> (\<And>e. P (Failed c e)) \<Longrightarrow> emits P (invoke c)"
  unfolding emits_def by (rule post_invoke) auto

lemma emits_print: "P (Did (Print s)) \<Longrightarrow> (\<And>e. P (Failed (Print s) e)) \<Longrightarrow> emits P (print s)"
  unfolding print_def by (rule emits_invoke)

lemma emits_is_visible:
  "P (Did (IsVisible s)) \<Longrightarrow> (\<And>e. P (Failed (IsVisible s) e)) \<Longrightarrow> emits P (is_visible s)"
  unfolding emits_def by (rule post_is_visible) auto

lemma emits_title: "P (Did Title) \<Longrightarrow> (\<And>e. P (Failed Title e)) \<Longrightarrow> emits P title"
  unfolding emits_def by (rule post_title) auto

lemma emits_content: "P (Did Content) \<Longrightarrow> (\<And>e. P (Failed Content e)) \<Longrightarrow> emits P content"
  unfolding emits_def by (rule post_content) auto

lemma emits_and_then:
  assumes "emits P m" and "\<And>v. emits P (f v)"
  shows "emits P (and_then m f)"
  unfolding emits_def
  by (rule post_and_then[OF assms(1)[unfolded emits_def] assms(2)[unfolded emits_def]]) auto

lemma emits_block_Nil: "emits P (block [])"
  unfolding emits_def by (rule post_block_Nil) auto

lemma emits_block_Cons:
  assumes "emits P m" and "emits P (block ms)"
  shows "emits P (block (m # ms))"
  unfolding emits_def
  by (rule post_block_Cons[OF assms[unfolded emits_def]]) auto

lemma emits_try_except:
  assumes "emits P body" and "\<And>e. emits P (handler e)"
  shows "emits P (try_except body catches handler)"
  unfolding emits_def
  by (rule post_try_except[OF assms(1)[unfolded emits_def] assms(2)[unfolded emits_def]]) auto

lemma emits_try_finally:
  assumes "emits P body" and "emits P final"
  shows "emits P (try_finally body final)"
  unfolding emits_def
  by (rule post_try_finally[OF assms[unfolded emits_def]]) auto

lemma emits_if: "emits P a \<Longrightarrow> emits P b \<Longrightarrow> emits P (if c then a else b)"
  by simp

lemmas emits_intros =
  emits_invoke emits_print emits_is_visible emits_title emits_content emits_and_then
  emits_block_Nil emits_block_Cons emits_try_except emits_try_finally emits_if

lemma emitsD: "emits P m \<Longrightarrow> m w h = (r, x) \<Longrightarrow> ev \<in> set x \<Longrightarrow> P ev"
  unfolding emits_def by (drule (1) postD) auto

lemma halts_emits: "emits (\<lambda>ev. \<not> S ev) m \<Longrightarrow> halts S m"
  unfolding emits_def halts_def by (erule post_weaken) (simp add: after_none)

lemma halts_invoke: "\<not> S (Did c) \<Longrightarrow> halts S (invoke c)"
  unfolding halts_def by (rule post_invoke) auto

lemma halts_print: "\<not> S (Did (Print s)) \<Longrightarrow> halts S (print s)"
  unfolding print_def by (rule halts_invoke)

lemma halts_block_Nil: "halts S (block [])"
  unfolding halts_def by (rule post_block_Nil) auto

lemma halts_block_Cons:
  assumes "halts S m" and "halts S (block ms)"
  shows "halts S (block (m # ms))"
  unfolding halts_def
proof (rule post_block_Cons[OF assms[unfolded halts_def]])
  fix x :: trace and r :: "exn + unit" and y
  assume a: "after S (\<lambda>ev rest. rest = [] \<and> (\<exists>c e. ev = Failed c e \<and> Inr () = Inl e)) x"
    and b: "after S (\<lambda>ev rest. rest = [] \<and> (\<exists>c e. ev = Failed c e \<and> r = Inl e)) y"
  from a have "after S (\<lambda>e r. False) x" by (rule after_mono) simp
  then have "after S (\<lambda>ev rest. (rest @ y) = [] \<and> (\<exists>c e. ev = Failed c e \<and> r = Inl e)) x"
    by (rule after_mono) simp
  with b show "after S (\<lambda>ev rest. rest = [] \<and> (\<exists>c e. ev = Failed c e \<and> r = Inl e)) (x @ y)"
    by (simp add: after_append)
qed simp

lemmas halts_intros = halts_invoke halts_print halts_block_Nil halts_block_Cons

lemma post_scenario:
  assumes B: "post B QB" and H: "\<And>e. is_Exception e \<Longrightarrow> post (H e) (QH e)"
    and launch: "\<And>e. Q (Inl e) [Failed Launch e]"
    and page: "\<And>e. Q (Inl e) [Did Launch, Failed NewPage e]"
    and ran: "\<And>rb xb rh xh r cl. QB rb xb \<Longrightarrow> guarded QH rb rh xh \<Longrightarrow> closing rh r cl
                \<Longrightarrow> Q r (Did Launch # Did NewPage # xb @ xh @ [cl])"
  shows "post (scenario B H) Q"
proof (rule postI)
  fix w h r x
  assume run: "scenario B H w h = (r, x)"
  show "Q r x"
  proof (cases "fails w h Launch")
    case (Some e)
    with run have "r = Inl e" "x = [Failed Launch e]"
      by (auto simp: scenario_def invoke_def)
    with launch show ?thesis by simp
  next
    case l: None
    show ?thesis
    proof (cases "fails w (h @ [Did Launch]) NewPage")
      case (Some e)
      with run l have "r = Inl e" "x = [Did Launch, Failed NewPage e]"
        by (auto simp: scenario_def invoke_def)
      with page show ?thesis by simp
    next
      case n: None
      let ?h = "(h @ [Did Launch]) @ [Did NewPage]"
      obtain rb xb where b: "B w ?h = (rb, xb)" by (cases "B w ?h")
      have qb: "QB rb xb" using B b by (rule postD)
      obtain rt xt where t: "try_except B is_Exception H w ?h = (rt, xt)"
        by (cases "try_except B is_Exception H w ?h")
      have "\<exists>xh. xt = xb @ xh \<and> guarded QH rb rt xh"
      proof (cases rb)
        case (Inr u)
        with b t show ?thesis by (auto simp: try_except_def guarded_def)
      next
        case (Inl e)
        show ?thesis
        proof (cases "is_Exception e")
          case False
          with Inl b t show ?thesis by (auto simp: try_except_def guarded_def)
        next
          case True
          obtain r2 x2 where h2: "H e w (?h @ xb) = (r2, x2)" by (cases "H e w (?h @ xb)")
          have "QH e r2 x2" using H[OF True] h2 by (rule postD)
          with Inl True b t h2 show ?thesis by (auto simp: try_except_def guarded_def)
        qed
      qed
      then obtain xh where xt: "xt = xb @ xh" and g: "guarded QH rb rt xh" by blast
      have "\<exists>cl. x = Did Launch # Did NewPage # xt @ [cl] \<and> closing rt r cl"
        using run l n t
        by (auto simp: scenario_def invoke_def try_finally_def closing_def split: option.splits sum.splits)
      then obtain cl where "x = Did Launch # Did NewPage # xt @ [cl]" "closing rt r cl" by blast
      with ran[OF qb g] xt show ?thesis by simp
    qed
  qed
qed

section \<open>The scripts as scenarios\<close>

lemma verify_app_scenario: "verify_app = scenario verify_app_body verify_app_handler"
  by (simp add: verify_app_def scenario_def)

lemma verify_app_debug_scenario:
  "verify_app_debug = scenario verify_app_debug_body verify_app_debug_handler"
  by (simp add: verify_app_debug_def scenario_def)

lemma verify_fix_scenario: "verify_fix = scenario verify_fix_body verify_fix_handler"
  by (simp add: verify_fix_def scenario_def)

lemma verify_rev_scenario:
  "verify_app_revolutionary = scenario verify_rev_body verify_rev_handler"
  by (simp add: verify_app_revolutionary_def scenario_def)

lemma run_post: "post p Q \<Longrightarrow> Q (result p w) (run p w)"
  by (simp add: post_def run_def result_def)

lemmas eval_defs = run_def result_def invoke_def print_def is_visible_def title_def content_def
  and_then_def try_except_def try_finally_def bare_except_def url_def

lemmas verify_app_defs =
  verify_app_def verify_app_body_def verify_app_auth_def verify_app_handler_def

lemmas verify_app_debug_defs =
  verify_app_debug_def verify_app_debug_body_def verify_app_debug_handler_def

lemmas verify_fix_defs =
  verify_fix_def verify_fix_body_def verify_fix_load_def verify_fix_scanner_def
  verify_fix_handler_def

lemmas verify_rev_defs =
  verify_app_revolutionary_def verify_rev_body_def verify_rev_splash_def verify_rev_auth_def
  verify_rev_handler_def

lemmas body_defs =
  verify_app_body_def verify_app_auth_def verify_app_debug_body_def
  verify_fix_body_def verify_fix_load_def verify_fix_scanner_def
  verify_rev_body_def verify_rev_splash_def verify_rev_auth_def

lemmas handler_defs =
  verify_app_handler_def verify_app_debug_handler_def verify_fix_handler_def
  verify_rev_handler_def

lemmas world_defs = calm_def raising_def misses_def scanner_missing_def body_missing_def
  server_down_def skips_auth_def login_broken_def interrupted_def error_shot_fails_def
  pipe_breaks_def skips_auth_pipe_breaks_def stdout_closed_def error_page_def close_fails_too_def

section \<open>The browser is closed exactly once\<close>

lemma scenario_started:
  assumes "fails w [] Launch = None" and "fails w [Did Launch] NewPage = None"
  shows "Did NewPage \<in> set (run (scenario B H) w)"
  using assms
  by (simp add: run_def scenario_def invoke_def try_finally_def split: prod.splits sum.splits)

lemma scenario_closes_once:
  assumes "emits (\<lambda>ev. call_of ev \<noteq> Close) B"
    and "\<And>e. emits (\<lambda>ev. call_of ev \<noteq> Close) (H e)"
  shows "post (scenario B H)
    (\<lambda>r x. Did NewPage \<in> set x \<longrightarrow> closes x = 1 \<and> call_of (last x) = Close)"
  by (rule post_scenario[OF assms(1)[unfolded emits_def] assms(2)[unfolded emits_def]])
     (auto simp: closes_def guarded_def closing_def split: sum.splits if_splits)

lemma bodies_no_close:
  "emits (\<lambda>ev. call_of ev \<noteq> Close) verify_app_body"
  "emits (\<lambda>ev. call_of ev \<noteq> Close) verify_app_debug_body"
  "emits (\<lambda>ev. call_of ev \<noteq> Close) verify_fix_body"
  "emits (\<lambda>ev. call_of ev \<noteq> Close) verify_rev_body"
  unfolding body_defs by (intro emits_intros; simp)+

lemma handlers_no_close:
  "emits (\<lambda>ev. call_of ev \<noteq> Close) (verify_app_handler e)"
  "emits (\<lambda>ev. call_of ev \<noteq> Close) (verify_app_debug_handler e)"
  "emits (\<lambda>ev. call_of ev \<noteq> Close) (verify_fix_handler e)"
  "emits (\<lambda>ev. call_of ev \<noteq> Close) (verify_rev_handler e)"
  unfolding handler_defs by (intro emits_intros; simp)+

lemma program_scenario:
  "program s = scenario
     (case s of VerifyApp \<Rightarrow> verify_app_body | VerifyAppDebug \<Rightarrow> verify_app_debug_body
      | VerifyFix \<Rightarrow> verify_fix_body | VerifyRevolutionary \<Rightarrow> verify_rev_body)
     (case s of VerifyApp \<Rightarrow> verify_app_handler | VerifyAppDebug \<Rightarrow> verify_app_debug_handler
      | VerifyFix \<Rightarrow> verify_fix_handler | VerifyRevolutionary \<Rightarrow> verify_rev_handler)"
  by (cases s)
     (simp_all add: verify_app_scenario verify_app_debug_scenario verify_fix_scenario
        verify_rev_scenario)

lemma closes_once:
  "post (program s) (\<lambda>r x. Did NewPage \<in> set x \<longrightarrow> closes x = 1 \<and> call_of (last x) = Close)"
proof (cases s)
  case VerifyApp
  then show ?thesis
    using scenario_closes_once[OF bodies_no_close(1) handlers_no_close(1)]
    by (simp add: verify_app_scenario)
next
  case VerifyAppDebug
  then show ?thesis
    using scenario_closes_once[OF bodies_no_close(2) handlers_no_close(2)]
    by (simp add: verify_app_debug_scenario)
next
  case VerifyFix
  then show ?thesis
    using scenario_closes_once[OF bodies_no_close(3) handlers_no_close(3)]
    by (simp add: verify_fix_scenario)
next
  case VerifyRevolutionary
  then show ?thesis
    using scenario_closes_once[OF bodies_no_close(4) handlers_no_close(4)]
    by (simp add: verify_rev_scenario)
qed

lemma run_verify_app_scanner_missing:
  "run verify_app scanner_missing =
    [Did Launch, Did NewPage, Did (Goto ''http://localhost:4173'' None),
     Did (WaitForSelector ''text=Access Protocol'' 5000), Did (Print ''Auth screen detected''),
     Did (Screenshot ''verification/1_auth_screen.png''),
     Did (Fill ''input[type=\"email\"]'' ''admin@rockhound.com''),
     Did (Fill ''input[type=\"password\"]'' ''admin''),
     Did (Click ''button:has-text(\"Initialize Session\")''),
     Failed (WaitForSelector ''text=SYSTEM ACTIVE'' 10000)
       (TimeoutError ''Timeout 10000ms exceeded.''),
     Did (Print ''Error: Timeout 10000ms exceeded.''),
     Did (Screenshot ''verification/error.png''), Did Close]"
  by (simp add: eval_defs verify_app_defs world_defs)

lemma run_verify_rev_interrupted:
  "run verify_app_revolutionary interrupted =
    [Did Launch, Did NewPage, Did (Print ''Navigating to app...''),
     Failed (Goto ''http://localhost:4173'' (Some 60000)) (NonException ''KeyboardInterrupt''),
     Did Close]"
  by (simp add: eval_defs verify_rev_defs world_defs)

lemma run_verify_fix_calm:
  "run verify_fix calm =
    [Did Launch, Did NewPage, Did (Print ''Navigating to app...''),
     Did (Goto ''http://localhost:4173'' (Some 60000)),
     Did (WaitForSelector ''text=ROCKHOUND'' 10000),
     Did (Print ''App loaded successfully (Auth screen)''),
     Did (Screenshot ''verification/fixed_load.png''), Did Close]"
  by (simp add: eval_defs verify_fix_defs world_defs)

lemma run_verify_app_debug_body_missing:
  "run verify_app_debug body_missing =
     [Did Launch, Did NewPage, Did (Print ''Navigating to app...''),
      Did (Goto ''http://localhost:4173'' (Some 60000)), Did (Print ''Waiting for body...''),
      Failed (WaitForSelector ''body'' 10000) (TimeoutError ''Timeout 10000ms exceeded.''),
      Did (Print ''Error: Timeout 10000ms exceeded.''), Did Close]"
  by (simp add: eval_defs verify_app_debug_defs world_defs)

lemma no_failure_at_start:
  "fails scanner_missing [] Launch = None" "fails scanner_missing [Did Launch] NewPage = None"
  "fails body_missing [] Launch = None" "fails body_missing [Did Launch] NewPage = None"
  "fails calm [] Launch = None" "fails calm [Did Launch] NewPage = None"
  "fails interrupted [] Launch = None" "fails interrupted [Did Launch] NewPage = None"
  by (simp_all add: world_defs)

text \<open>
  C1. In each of the four scripts, once the browser is launched and the page created,
  every run (normal completion, a timeout of a mandatory wait, any other exception, of
  any class, raised by any later call) calls \<^verbatim>\<open>browser.close()\<close> exactly once, and that
  call is the last thing the run does.
\<close>

theorem browser_closed_exactly_once:
  assumes "fails w [] Launch = None" and "fails w [Did Launch] NewPage = None"
  shows "closes (run (program s) w) = 1 \<and> call_of (last (run (program s) w)) = Close"
proof -
  have "Did NewPage \<in> set (run (program s) w)"
    unfolding program_scenario using assms by (rule scenario_started)
  with run_post[OF closes_once, of s w] show ?thesis by simp
qed

theorem browser_closed_exactly_once_witness:
  "fails scanner_missing [] Launch = None \<and> fails scanner_missing [Did Launch] NewPage = None
   \<and> closes (run (program VerifyApp) scanner_missing) = 1
   \<and> call_of (last (run (program VerifyApp) scanner_missing)) = Close
   \<and> Failed (WaitForSelector ''text=SYSTEM ACTIVE'' 10000) (TimeoutError ''Timeout 10000ms exceeded.'')
       \<in> set (run (program VerifyApp) scanner_missing)
   \<and> closes (run (program VerifyAppDebug) body_missing) = 1
   \<and> call_of (last (run (program VerifyAppDebug) body_missing)) = Close
   \<and> closes (run (program VerifyFix) calm) = 1
   \<and> call_of (last (run (program VerifyFix) calm)) = Close
   \<and> closes (run (program VerifyRevolutionary) interrupted) = 1
   \<and> call_of (last (run (program VerifyRevolutionary) interrupted)) = Close
   \<and> Failed (Goto url (Some 60000)) (NonException ''KeyboardInterrupt'')
       \<in> set (run (program VerifyRevolutionary) interrupted)"
proof -
  note a = browser_closed_exactly_once[OF no_failure_at_start(1,2), of VerifyApp]
  note b = browser_closed_exactly_once[OF no_failure_at_start(3,4), of VerifyAppDebug]
  note c = browser_closed_exactly_once[OF no_failure_at_start(5,6), of VerifyFix]
  note d = browser_closed_exactly_once[OF no_failure_at_start(7,8), of VerifyRevolutionary]
  have "Failed (WaitForSelector ''text=SYSTEM ACTIVE'' 10000) (TimeoutError ''Timeout 10000ms exceeded.'')
       \<in> set (run (program VerifyApp) scanner_missing)"
    by (simp add: run_verify_app_scanner_missing)
  moreover have "Failed (Goto url (Some 60000)) (NonException ''KeyboardInterrupt'')
       \<in> set (run (program VerifyRevolutionary) interrupted)"
    by (simp add: run_verify_rev_interrupted url_def)
  ultimately show ?thesis using a b c d no_failure_at_start by blast
qed

section \<open>Failures that end the scenario\<close>

lemma after_nth: "after S Q xs \<Longrightarrow> i < length xs \<Longrightarrow> S (xs ! i) \<Longrightarrow> Q (xs ! i) (drop (Suc i) xs)"
  by (simp add: after_def)

lemma emits_run: "emits P p \<Longrightarrow> ev \<in> set (run p w) \<Longrightarrow> P ev"
  by (simp add: emits_def post_def run_def)

lemma halts_and_then:
  assumes "halts S m" and "\<And>v. halts S (f v)"
  shows "halts S (and_then m f)"
  unfolding halts_def
proof (rule post_and_then[OF assms(1)[unfolded halts_def] assms(2)[unfolded halts_def]])
  fix v :: 'a and x :: trace and r :: "exn + 'b" and y
  assume a: "after S (\<lambda>ev rest. rest = [] \<and> (\<exists>c e. ev = Failed c e \<and> Inr v = Inl e)) x"
    and b: "after S (\<lambda>ev rest. rest = [] \<and> (\<exists>c e. ev = Failed c e \<and> r = Inl e)) y"
  from a have "after S (\<lambda>e r. False) x" by (rule after_mono) simp
  then have "after S (\<lambda>ev rest. (rest @ y) = [] \<and> (\<exists>c e. ev = Failed c e \<and> r = Inl e)) x"
    by (rule after_mono) simp
  with b show "after S (\<lambda>ev rest. rest = [] \<and> (\<exists>c e. ev = Failed c e \<and> r = Inl e)) (x @ y)"
    by (simp add: after_append)
qed simp

lemma halts_is_visible: "\<not> S (Did (IsVisible s)) \<Longrightarrow> halts S (is_visible s)"
  unfolding halts_def by (rule post_is_visible) auto

lemma halts_title: "\<not> S (Did Title) \<Longrightarrow> halts S title"
  unfolding halts_def by (rule post_title) auto

lemma halts_content: "\<not> S (Did Content) \<Longrightarrow> halts S content"
  unfolding halts_def by (rule post_content) auto

lemma halts_if: "halts S a \<Longrightarrow> halts S b \<Longrightarrow> halts S (if c then a else b)"
  by simp

lemma halts_try_except:
  assumes b: "emits (\<lambda>ev. \<not> S ev) b" and h: "\<And>e. halts S (h e)"
  shows "halts S (try_except b c h)"
  unfolding halts_def
  by (rule post_try_except[OF b[unfolded emits_def] h[unfolded halts_def]])
     (simp_all add: after_append after_none)

lemmas halts_all_intros = halts_intros halts_and_then halts_is_visible halts_title halts_content
  halts_if

lemma written_append: "written (xs @ ys) = written xs @ written ys"
  by (induction xs rule: written.induct) simp_all

lemma written_none:
  "(\<forall>ev\<in>set xs. \<forall>p\<in>set F. ev \<noteq> Did (Screenshot p)) \<Longrightarrow> filter (\<lambda>p. p \<in> set F) (written xs) = []"
  by (induction xs rule: written.induct) auto

lemma straight_Cons:
  "straight (c # cs) y \<longleftrightarrow> (\<exists>e. y = [Failed c e]) \<or> (\<exists>y'. y = Did c # y' \<and> straight cs y')"
proof (cases y)
  case Nil
  then show ?thesis by simp
next
  case (Cons ev y')
  then show ?thesis by (cases ev) auto
qed

lemma post_straight:
  "post (block (map invoke cs))
     (\<lambda>r x. straight cs x \<and> (\<forall>ev\<in>set x. call_of ev \<in> set cs)
            \<and> ((\<exists>v. r = Inr v) \<longleftrightarrow> list_all returned x))"
proof (induction cs)
  case Nil
  show ?case by (simp add: post_def)
next
  case (Cons c cs)
  have 1: "post (invoke c) (\<lambda>r x. (r = Inr () \<and> x = [Did c]) \<or> (\<exists>e. r = Inl e \<and> x = [Failed c e]))"
    by (rule post_invoke) simp_all
  show ?case
    unfolding list.map
    by (rule post_block_Cons[OF 1 Cons]) auto
qed

lemma scenario_abort:
  assumes B: "halts S B"
    and BF: "emits (\<lambda>ev. \<forall>p\<in>set F. ev \<noteq> Did (Screenshot p)) B"
    and H: "\<And>e. is_Exception e \<Longrightarrow> post (H e) (\<lambda>r x. straight (K e) x \<and> (\<forall>ev\<in>set x. \<not> S ev))"
    and S: "\<And>ev. S ev \<Longrightarrow> call_of ev \<notin> {Launch, NewPage, Close}"
  shows "post (scenario B H) (\<lambda>r x. after S (\<lambda>ev rest. \<forall>c e. ev = Failed c e \<longrightarrow>
           rest \<noteq> [] \<and> call_of (last rest) = Close
         \<and> (if is_Exception e then straight (K e) (butlast rest) else butlast rest = [])
         \<and> filter (\<lambda>p. p \<in> set F) (written x) = filter (\<lambda>p. p \<in> set F) (written rest)) x)"
proof (rule post_scenario[OF post_conj[OF B[unfolded halts_def] BF[unfolded emits_def]] H])
  fix rb xb rh xh and r :: "exn + unit" and cl
  let ?X = "Did Launch # Did NewPage # xb @ xh @ [cl]"
  let ?Q = "\<lambda>ev rest. \<forall>c e. ev = Failed c e \<longrightarrow>
           rest \<noteq> [] \<and> call_of (last rest) = Close
         \<and> (if is_Exception e then straight (K e) (butlast rest) else butlast rest = [])
         \<and> filter (\<lambda>p. p \<in> set F) (written ?X) = filter (\<lambda>p. p \<in> set F) (written rest)"
  assume ab: "after S (\<lambda>ev rest. rest = [] \<and> (\<exists>c e. ev = Failed c e \<and> rb = Inl e)) xb
      \<and> (\<forall>ev\<in>set xb. \<forall>p\<in>set F. ev \<noteq> Did (Screenshot p))"
    and g: "guarded (\<lambda>e r x. straight (K e) x \<and> (\<forall>ev\<in>set x. \<not> S ev)) rb rh xh"
    and c: "closing rh r cl"
  from ab have a: "after S (\<lambda>ev rest. rest = [] \<and> (\<exists>c e. ev = Failed c e \<and> rb = Inl e)) xb"
    and wb: "filter (\<lambda>p. p \<in> set F) (written xb) = []"
    by (simp_all add: written_none)
  have xh: "\<forall>ev\<in>set xh. \<not> S ev"
    using g by (auto simp: guarded_def split: sum.splits if_splits)
  have cl: "\<not> S cl" "call_of cl = Close" using c S[of cl] by (auto simp: closing_def)
  have w: "filter (\<lambda>p. p \<in> set F) (written ?X) = filter (\<lambda>p. p \<in> set F) (written (xh @ [cl]))"
    using wb by (simp add: written_append)
  from a have "after S (\<lambda>ev rest. ?Q ev (rest @ xh @ [cl])) xb"
    by (rule after_mono) (use g cl w in \<open>auto simp: guarded_def\<close>)
  with xh cl S[of "Did Launch"] S[of "Did NewPage"]
  show "after S ?Q ?X"
    by (auto simp: after_append after_none)
qed (auto dest!: S)

lemma failed_unguarded_body:
  "failed_unguarded s ev \<Longrightarrow> call_of ev \<notin> {Launch, NewPage, Close}"
  by (cases ev) (auto simp: unguarded_def outside_body_def)

lemma not_unguarded_handler:
  "\<not> unguarded s (Print (''Error: '' @ m))" "c \<in> set (failure_shots s) \<Longrightarrow> \<not> unguarded s c"
  by (simp_all add: unguarded_def outside_body_def)

lemma handler_shape:
  "post (block (map invoke (Print (''Error: '' @ str e) # failure_shots s)))
     (\<lambda>r x. straight (Print (''Error: '' @ str e) # failure_shots s) x
          \<and> (\<forall>ev\<in>set x. \<not> failed_unguarded s ev))"
proof (rule post_weaken[OF post_straight])
  fix r :: "exn + unit" and x
  assume a: "straight (Print (''Error: '' @ str e) # failure_shots s) x
      \<and> (\<forall>ev\<in>set x. call_of ev \<in> set (Print (''Error: '' @ str e) # failure_shots s))
      \<and> ((\<exists>v. r = Inr v) \<longleftrightarrow> list_all returned x)"
  have "\<not> failed_unguarded s ev" if "ev \<in> set x" for ev
  proof (cases ev)
    case (Did c)
    then show ?thesis by simp
  next
    case (Failed c e')
    with a that have "c = Print (''Error: '' @ str e) \<or> c \<in> set (failure_shots s)" by force
    with Failed show ?thesis using not_unguarded_handler by auto
  qed
  with a show "straight (Print (''Error: '' @ str e) # failure_shots s) x
          \<and> (\<forall>ev\<in>set x. \<not> failed_unguarded s ev)" by blast
qed

lemma handlers_straight:
  "verify_app_handler e = block (map invoke (Print (''Error: '' @ str e) # failure_shots VerifyApp))"
  "verify_rev_handler e = block (map invoke (Print (''Error: '' @ str e) # failure_shots VerifyRevolutionary))"
  by (simp_all add: handler_defs failure_shots_def print_def)

lemma short_handler_shape:
  "post (print (''Error: '' @ str e))
     (\<lambda>r x. straight [Print (''Error: '' @ str e)] x \<and> (\<forall>ev\<in>set x. \<not> failed_unguarded s ev))"
  by (rule post_print) (simp_all add: unguarded_def outside_body_def)

lemma verify_app_body_halts: "halts (failed_unguarded VerifyApp) verify_app_body"
  unfolding verify_app_body_def verify_app_auth_def
  apply (intro halts_all_intros halts_try_except)
                      apply simp_all
  apply (intro emits_intros; simp add: unguarded_def)
  done

lemma verify_app_debug_body_halts: "halts (failed_unguarded VerifyAppDebug) verify_app_debug_body"
  unfolding verify_app_debug_body_def
  by (intro halts_all_intros; simp)

lemma verify_fix_body_halts: "halts (failed_unguarded VerifyFix) verify_fix_body"
  unfolding verify_fix_body_def verify_fix_load_def verify_fix_scanner_def
  apply (intro halts_all_intros halts_try_except)
            apply simp_all
   apply (intro emits_intros; simp add: unguarded_def)
  apply (intro emits_intros; simp add: unguarded_def)
  done

lemma verify_rev_body_halts: "halts (failed_unguarded VerifyRevolutionary) verify_rev_body"
  unfolding verify_rev_body_def verify_rev_splash_def verify_rev_auth_def
  apply (intro halts_all_intros halts_try_except)
                      apply simp_all
   apply (intro emits_intros; simp add: unguarded_def)
  apply (intro emits_intros; simp add: unguarded_def)
  done

lemma bodies_no_failure_shot:
  "emits (\<lambda>ev. \<forall>p\<in>set (failure_files VerifyApp). ev \<noteq> Did (Screenshot p)) verify_app_body"
  "emits (\<lambda>ev. \<forall>p\<in>set (failure_files VerifyAppDebug). ev \<noteq> Did (Screenshot p)) verify_app_debug_body"
  "emits (\<lambda>ev. \<forall>p\<in>set (failure_files VerifyFix). ev \<noteq> Did (Screenshot p)) verify_fix_body"
  "emits (\<lambda>ev. \<forall>p\<in>set (failure_files VerifyRevolutionary). ev \<noteq> Did (Screenshot p)) verify_rev_body"
  unfolding body_defs by (intro emits_intros; simp)+

lemma program_abort:
  "post (program s) (\<lambda>r x. after (failed_unguarded s) (\<lambda>ev rest. \<forall>c e. ev = Failed c e \<longrightarrow>
           rest \<noteq> [] \<and> call_of (last rest) = Close
         \<and> (if is_Exception e
            then straight (Print (''Error: '' @ str e) # failure_shots s) (butlast rest)
            else butlast rest = [])
         \<and> filter (\<lambda>p. p \<in> set (failure_files s)) (written x)
             = filter (\<lambda>p. p \<in> set (failure_files s)) (written rest)) x)"
proof (cases s)
  case VerifyApp
  show ?thesis
    unfolding VerifyApp program.simps verify_app_scenario
    apply (rule scenario_abort[OF verify_app_body_halts bodies_no_failure_shot(1)])
    subgoal for e unfolding handlers_straight by (rule handler_shape)
    by (rule failed_unguarded_body)
next
  case VerifyAppDebug
  show ?thesis
    unfolding VerifyAppDebug program.simps verify_app_debug_scenario
    apply (rule scenario_abort[OF verify_app_debug_body_halts bodies_no_failure_shot(2)])
    subgoal for e unfolding verify_app_debug_handler_def failure_shots_def failure_files.simps list.map
      by (rule short_handler_shape)
    by (rule failed_unguarded_body)
next
  case VerifyFix
  show ?thesis
    unfolding VerifyFix program.simps verify_fix_scenario
    apply (rule scenario_abort[OF verify_fix_body_halts bodies_no_failure_shot(3)])
    subgoal for e unfolding verify_fix_handler_def failure_shots_def failure_files.simps list.map
      by (rule short_handler_shape)
    by (rule failed_unguarded_body)
next
  case VerifyRevolutionary
  show ?thesis
    unfolding VerifyRevolutionary program.simps verify_rev_scenario
    apply (rule scenario_abort[OF verify_rev_body_halts bodies_no_failure_shot(4)])
    subgoal for e unfolding handlers_straight by (rule handler_shape)
    by (rule failed_unguarded_body)
qed

lemma unguarded_failure_aborts:
  assumes c: "unguarded s c"
    and i: "i < length (run (program s) w)" and f: "run (program s) w ! i = Failed c e"
  shows "drop (Suc i) (run (program s) w) \<noteq> []"
    and "call_of (last (drop (Suc i) (run (program s) w))) = Close"
    and "is_Exception e \<Longrightarrow> straight (Print (''Error: '' @ str e) # failure_shots s)
           (butlast (drop (Suc i) (run (program s) w)))"
    and "\<not> is_Exception e \<Longrightarrow> butlast (drop (Suc i) (run (program s) w)) = []"
    and "filter (\<lambda>p. p \<in> set (failure_files s)) (written (run (program s) w))
             = filter (\<lambda>p. p \<in> set (failure_files s)) (written (drop (Suc i) (run (program s) w)))"
proof -
  have s: "failed_unguarded s (run (program s) w ! i)" using f c by simp
  note a = after_nth[OF run_post[OF program_abort, of s w] i s, unfolded f, rule_format, OF refl]
  from a show "drop (Suc i) (run (program s) w) \<noteq> []" by blast
  from a show "call_of (last (drop (Suc i) (run (program s) w))) = Close" by blast
  from a show "is_Exception e \<Longrightarrow> straight (Print (''Error: '' @ str e) # failure_shots s)
           (butlast (drop (Suc i) (run (program s) w)))" by presburger
  from a show "\<not> is_Exception e \<Longrightarrow> butlast (drop (Suc i) (run (program s) w)) = []"
    by presburger
  from a show "filter (\<lambda>p. p \<in> set (failure_files s)) (written (run (program s) w))
             = filter (\<lambda>p. p \<in> set (failure_files s)) (written (drop (Suc i) (run (program s) w)))"
    by blast
qed

lemma run_verify_app_server_down:
  "run verify_app server_down =
     [Did Launch, Did NewPage,
      Failed (Goto ''http://localhost:4173'' None) (OtherException ''net::ERR_CONNECTION_REFUSED''),
      Did (Print ''Error: net::ERR_CONNECTION_REFUSED''),
      Did (Screenshot ''verification/error.png''), Did Close]"
  by (simp add: eval_defs verify_app_defs world_defs)

lemma run_verify_app_stdout_closed:
  "run verify_app stdout_closed =
     [Did Launch, Did NewPage, Did (Goto ''http://localhost:4173'' None),
      Did (WaitForSelector ''text=Access Protocol'' 5000),
      Failed (Print ''Auth screen detected'') (OtherException ''[Errno 9] Bad file descriptor''),
      Failed (Print ''Auth screen not found or already logged in'')
        (OtherException ''[Errno 9] Bad file descriptor''),
      Failed (Print ''Error: [Errno 9] Bad file descriptor'')
        (OtherException ''[Errno 9] Bad file descriptor''),
      Did Close]"
  by (simp add: eval_defs verify_app_defs world_defs)

theorem navigation_error_reaches_handler_counterexample:
  "run (program VerifyApp) server_down ! 2
       = Failed (Goto ''http://localhost:4173'' None)
           (OtherException ''net::ERR_CONNECTION_REFUSED'')
   \<and> drop 3 (run (program VerifyApp) server_down)
       = [Did (Print ''Error: net::ERR_CONNECTION_REFUSED''),
          Did (Screenshot ''verification/error.png''), Did Close]"
  by (simp add: run_verify_app_server_down)

section \<open>Failures that an inner except swallows\<close>

lemma proceeds_append: "proceeds K x \<Longrightarrow> proceeds K (x @ y)"
  by (induction K x rule: proceeds.induct) simp_all

lemma prefix_proceeds: "prefix K (map call_of x) \<Longrightarrow> proceeds K x"
proof (induction K x rule: proceeds.induct)
  case (3 c cs c' tr)
  then show ?case by simp
qed simp_all

lemma straight_proceeds_stop:
  "straight K x \<Longrightarrow> \<not> list_all returned x \<Longrightarrow> proceeds (K @ K') x"
  by (induction K x rule: straight.induct) simp_all

lemma straight_proceeds_next:
  "straight K x \<Longrightarrow> list_all returned x \<Longrightarrow> proceeds K' y \<Longrightarrow> proceeds (K @ K') (x @ y)"
  by (induction K x rule: straight.induct) simp_all

lemma starts_invoke: "starts [c] (invoke c)"
  unfolding starts_def by (rule post_invoke) auto

lemma starts_print: "starts [Print s] (print s)"
  unfolding print_def by (rule starts_invoke)

lemma starts_block:
  assumes "starts K m"
  shows "starts K (block (m # ms))"
  unfolding starts_def
  by (rule post_block_Cons[where ?Q2.0 = "\<lambda>r x. True", OF assms[unfolded starts_def]])
     (auto simp: post_def)

lemma starts_try_except:
  assumes "starts K b"
  shows "starts K (try_except b c h)"
  unfolding starts_def
  by (rule post_try_except[where ?Q2.0 = "\<lambda>e r x. True", OF assms[unfolded starts_def]])
     (auto simp: post_def)

lemma ends_with_bare:
  assumes b: "halts S b"
    and h: "\<And>e. post (h e) (\<lambda>r x. straight K x \<and> ((\<exists>v. r = Inr v) \<longleftrightarrow> list_all returned x)
                               \<and> (\<forall>ev\<in>set x. \<not> S ev))"
  shows "ends_with S K (try_except b bare_except h)"
  unfolding ends_with_def
proof (rule post_try_except[OF b[unfolded halts_def] h])
  fix e x r y
  assume a: "after S (\<lambda>ev rest. rest = [] \<and> (\<exists>c e'. ev = Failed c e' \<and> Inl e = Inl e')) x"
    and y: "straight K y \<and> ((\<exists>v. r = Inr v) \<longleftrightarrow> list_all returned y) \<and> (\<forall>ev\<in>set y. \<not> S ev)"
  from a have "after S (\<lambda>ev rest. straight K (rest @ y)
        \<and> ((\<exists>v. r = Inr v) \<longleftrightarrow> list_all returned (rest @ y))) x"
    by (rule after_mono) (use y in simp)
  with y show "after S (\<lambda>ev rest. straight K rest \<and> ((\<exists>v. r = Inr v) \<longleftrightarrow> list_all returned rest)) (x @ y)"
    by (simp add: after_append after_none)
next
  fix x
  assume a: "after S (\<lambda>ev rest. rest = [] \<and> (\<exists>c e'. ev = Failed c e' \<and> Inr () = Inl e')) x"
  then show "after S (\<lambda>ev rest. straight K rest
      \<and> ((\<exists>v. (Inr () :: exn + unit) = Inr v) \<longleftrightarrow> list_all returned rest)) x"
    by (rule after_mono) simp
qed (simp_all add: bare_except_def)

lemma log_line:
  assumes "\<And>e. \<not> S (Failed (Print s) e)" and "\<not> S (Did (Print s))"
  shows "post (print s) (\<lambda>r x. straight [Print s] x \<and> ((\<exists>v. r = Inr v) \<longleftrightarrow> list_all returned x)
                               \<and> (\<forall>ev\<in>set x. \<not> S ev))"
  by (rule post_print) (use assms in simp_all)

lemma swallowed_emits: "emits (\<lambda>ev. \<not> S ev) m \<Longrightarrow> swallowed S K m"
  unfolding emits_def swallowed_def by (erule post_weaken) (simp add: after_none)

lemma swallowed_block_skip:
  assumes "emits (\<lambda>ev. \<not> S ev) m" and "swallowed S K (block ms)"
  shows "swallowed S K (block (m # ms))"
  unfolding swallowed_def
  by (rule post_block_Cons[OF assms(1)[unfolded emits_def] assms(2)[unfolded swallowed_def]])
     (simp_all add: after_append after_none)

lemma swallowed_block_next:
  assumes m: "ends_with S K1 m" and s: "starts K2 (block ms)"
    and n: "emits (\<lambda>ev. \<not> S ev) (block ms)"
  shows "swallowed S (K1 @ K2) (block (m # ms))"
  unfolding swallowed_def
proof (rule post_block_Cons[OF m[unfolded ends_with_def]
      post_conj[OF s[unfolded starts_def] n[unfolded emits_def]]])
  fix x :: trace and r :: "exn + unit" and y
  assume a: "after S (\<lambda>ev rest. straight K1 rest
        \<and> ((\<exists>v. (Inr () :: exn + unit) = Inr v) \<longleftrightarrow> list_all returned rest)) x"
    and b: "prefix K2 (map call_of y) \<and> (\<forall>ev\<in>set y. \<not> S ev)"
  from b have "proceeds K2 y" by (simp add: prefix_proceeds)
  with a have "after S (\<lambda>ev rest. proceeds (K1 @ K2) (rest @ y)) x"
    by - (erule after_mono, simp add: straight_proceeds_next)
  with b show "after S (\<lambda>ev rest. proceeds (K1 @ K2) rest) (x @ y)"
    by (simp add: after_append after_none)
next
  fix e :: exn and x :: trace
  assume a: "after S (\<lambda>ev rest. straight K1 rest
        \<and> ((\<exists>v. (Inl e :: exn + unit) = Inr v) \<longleftrightarrow> list_all returned rest)) x"
  then show "after S (\<lambda>ev rest. proceeds (K1 @ K2) rest) x"
    by (rule after_mono) (simp add: straight_proceeds_stop)
qed

lemma swallowed_bare:
  assumes b: "halts S b" and s: "\<And>e. starts K (h e)" and n: "\<And>e. emits (\<lambda>ev. \<not> S ev) (h e)"
  shows "swallowed S K (try_except b bare_except h)"
  unfolding swallowed_def
proof (rule post_try_except[OF b[unfolded halts_def]
      post_conj[OF s[unfolded starts_def] n[unfolded emits_def]]])
  fix e x r y
  assume a: "after S (\<lambda>ev rest. rest = [] \<and> (\<exists>c e'. ev = Failed c e' \<and> Inl e = Inl e')) x"
    and b: "prefix K (map call_of y) \<and> (\<forall>ev\<in>set y. \<not> S ev)"
  from b have "proceeds K y" by (simp add: prefix_proceeds)
  with a have "after S (\<lambda>ev rest. proceeds K (rest @ y)) x"
    by - (erule after_mono, simp)
  with b show "after S (\<lambda>ev rest. proceeds K rest) (x @ y)"
    by (simp add: after_append after_none)
next
  fix x
  assume a: "after S (\<lambda>ev rest. rest = [] \<and> (\<exists>c e'. ev = Failed c e' \<and> Inr () = Inl e')) x"
  then show "after S (\<lambda>ev rest. proceeds K rest) x"
    by (rule after_mono) simp
qed (simp_all add: bare_except_def)

lemma swallowed_handler:
  assumes b: "emits (\<lambda>ev. \<not> S ev) b" and h: "\<And>e. swallowed S K (h e)"
  shows "swallowed S K (try_except b c h)"
  unfolding swallowed_def
  by (rule post_try_except[OF b[unfolded emits_def] h[unfolded swallowed_def]])
     (simp_all add: after_append after_none)

lemma swallowed_block_here:
  assumes m: "swallowed S K m" and n: "emits (\<lambda>ev. \<not> S ev) (block ms)"
  shows "swallowed S K (block (m # ms))"
  unfolding swallowed_def
proof (rule post_block_Cons[OF m[unfolded swallowed_def] n[unfolded emits_def]])
  fix x :: trace and r :: "exn + unit" and y
  assume a: "after S (\<lambda>ev rest. proceeds K rest) x" and b: "\<forall>ev\<in>set y. \<not> S ev"
  from a have "after S (\<lambda>ev rest. proceeds K (rest @ y)) x"
    by (rule after_mono) (simp add: proceeds_append)
  with b show "after S (\<lambda>ev rest. proceeds K rest) (x @ y)"
    by (simp add: after_append after_none)
qed simp

lemma scenario_swallowed:
  assumes B: "swallowed S K B" and H: "\<And>e. emits (\<lambda>ev. \<not> S ev) (H e)"
    and S: "\<And>ev. S ev \<Longrightarrow> call_of ev \<notin> {Launch, NewPage, Close}"
  shows "post (scenario B H) (\<lambda>r x. after S (\<lambda>ev rest. proceeds K rest) x)"
proof (rule post_scenario[OF B[unfolded swallowed_def] H[unfolded emits_def]])
  fix rb xb rh xh and r :: "exn + unit" and cl
  assume a: "after S (\<lambda>ev rest. proceeds K rest) xb"
    and g: "guarded (\<lambda>e r x. \<forall>ev\<in>set x. \<not> S ev) rb rh xh" and c: "closing rh r cl"
  have xh: "\<forall>ev\<in>set xh. \<not> S ev"
    using g by (auto simp: guarded_def split: sum.splits if_splits)
  have cl: "\<not> S cl" using c S[of cl] by (auto simp: closing_def)
  from a have "after S (\<lambda>ev rest. proceeds K (rest @ xh @ [cl])) xb"
    by (rule after_mono) (simp add: proceeds_append)
  with xh cl S[of "Did Launch"] S[of "Did NewPage"]
  show "after S (\<lambda>ev rest. proceeds K rest) (Did Launch # Did NewPage # xb @ xh @ [cl])"
    by (auto simp: after_append after_none)
qed (auto dest!: S)

lemma failed_in_body: "failed_in cs ev \<Longrightarrow> call_of ev \<in> set cs"
  by (cases ev) simp_all

subsection \<open>\<^verbatim>\<open>verify_app.py\<close>\<close>

lemma verify_app_auth_ends:
  "ends_with (failed_in verify_app_auth_calls) [Print ''Auth screen not found or already logged in'']
     verify_app_auth"
  unfolding verify_app_auth_def
  apply (rule ends_with_bare)
   apply (intro halts_intros; simp)
  apply (rule log_line; simp add: verify_app_auth_calls_def)
  done

lemma verify_app_body_swallowed:
  "swallowed (failed_in verify_app_auth_calls)
     ([Print ''Auth screen not found or already logged in''] @ [WaitForSelector ''text=SYSTEM ACTIVE'' 10000])
     verify_app_body"
  unfolding verify_app_body_def
  apply (rule swallowed_block_skip)
   apply (intro emits_intros; simp add: verify_app_auth_calls_def url_def)
  apply (rule swallowed_block_next[OF verify_app_auth_ends])
   apply (rule starts_block, rule starts_invoke)
  apply (intro emits_intros; simp add: verify_app_auth_calls_def)
  done

lemma verify_app_swallowed:
  "post verify_app (\<lambda>r x. after (failed_in verify_app_auth_calls)
      (\<lambda>ev rest. proceeds [Print ''Auth screen not found or already logged in'',
                           WaitForSelector ''text=SYSTEM ACTIVE'' 10000] rest) x)"
  unfolding verify_app_scenario
  apply (rule scenario_swallowed[OF verify_app_body_swallowed[simplified]])
  subgoal unfolding verify_app_handler_def by (intro emits_intros; simp add: verify_app_auth_calls_def)
  subgoal for ev by (drule failed_in_body) (auto simp: verify_app_auth_calls_def)
  done

lemma verify_app_guarded_failure:
  assumes "c \<in> set verify_app_auth_calls"
    and "i < length (run verify_app w)" and "run verify_app w ! i = Failed c e"
  shows "proceeds [Print ''Auth screen not found or already logged in'',
                   WaitForSelector ''text=SYSTEM ACTIVE'' 10000]
           (drop (Suc i) (run verify_app w))"
proof -
  have "failed_in verify_app_auth_calls (run verify_app w ! i)" using assms by simp
  with after_nth[OF run_post[OF verify_app_swallowed, of w]] assms(2) show ?thesis by simp
qed

subsection \<open>\<^verbatim>\<open>verify_revolutionary.py\<close>\<close>

lemma verify_rev_auth_ends:
  "ends_with (failed_in verify_rev_auth_calls) [Print ''Auth screen not found or already logged in'']
     verify_rev_auth"
  unfolding verify_rev_auth_def
  apply (rule ends_with_bare)
   apply (intro halts_all_intros; simp)
  apply (rule log_line; simp add: verify_rev_auth_calls_def)
  done

lemma verify_rev_splash_ends:
  "ends_with (failed_in verify_rev_splash_calls) [Print ''Splash screen skipped or missed'']
     verify_rev_splash"
  unfolding verify_rev_splash_def
  apply (rule ends_with_bare)
   apply (intro halts_all_intros; simp)
  apply (rule log_line; simp add: verify_rev_splash_calls_def)
  done

lemma verify_rev_body_swallowed:
  "swallowed (failed_in verify_rev_auth_calls)
     ([Print ''Auth screen not found or already logged in''] @ [WaitForSelector ''text=SYSTEM ACTIVE'' 15000])
     verify_rev_body"
  unfolding verify_rev_body_def
  apply (rule swallowed_block_skip, (intro emits_intros; simp add: verify_rev_auth_calls_def))
  apply (rule swallowed_block_skip, (intro emits_intros; simp add: verify_rev_auth_calls_def))
  apply (rule swallowed_block_skip)
  subgoal unfolding verify_rev_splash_def by (intro emits_intros; simp add: verify_rev_auth_calls_def)
  apply (rule swallowed_block_next[OF verify_rev_auth_ends])
   apply (rule starts_block, rule starts_invoke)
  apply (intro emits_intros; simp add: verify_rev_auth_calls_def)
  done

lemma verify_rev_body_swallowed_splash:
  "swallowed (failed_in verify_rev_splash_calls)
     ([Print ''Splash screen skipped or missed''] @ [WaitForSelector ''text=ROCKHOUND'' 10000])
     verify_rev_body"
  unfolding verify_rev_body_def
  apply (rule swallowed_block_skip, (intro emits_intros; simp add: verify_rev_splash_calls_def))
  apply (rule swallowed_block_skip, (intro emits_intros; simp add: verify_rev_splash_calls_def))
  apply (rule swallowed_block_next[OF verify_rev_splash_ends])
  subgoal unfolding verify_rev_auth_def
    by (intro starts_block starts_try_except starts_invoke)
  subgoal unfolding verify_rev_auth_def
    by (intro emits_intros; simp add: verify_rev_splash_calls_def)
  done

lemma verify_rev_swallowed:
  "post verify_app_revolutionary (\<lambda>r x. after (failed_in verify_rev_auth_calls)
      (\<lambda>ev rest. proceeds [Print ''Auth screen not found or already logged in'',
                           WaitForSelector ''text=SYSTEM ACTIVE'' 15000] rest) x)"
  unfolding verify_rev_scenario
  apply (rule scenario_swallowed[OF verify_rev_body_swallowed[simplified]])
  subgoal unfolding verify_rev_handler_def by (intro emits_intros; simp add: verify_rev_auth_calls_def)
  subgoal for ev by (drule failed_in_body) (auto simp: verify_rev_auth_calls_def)
  done

lemma verify_rev_swallowed_splash:
  "post verify_app_revolutionary (\<lambda>r x. after (failed_in verify_rev_splash_calls)
      (\<lambda>ev rest. proceeds [Print ''Splash screen skipped or missed'',
                           WaitForSelector ''text=ROCKHOUND'' 10000] rest) x)"
  unfolding verify_rev_scenario
  apply (rule scenario_swallowed[OF verify_rev_body_swallowed_splash[simplified]])
  subgoal unfolding verify_rev_handler_def by (intro emits_intros; simp add: verify_rev_splash_calls_def)
  subgoal for ev by (drule failed_in_body) (auto simp: verify_rev_splash_calls_def)
  done

lemma verify_rev_guarded_failure:
  assumes "c \<in> set verify_rev_auth_calls"
    and "i < length (run verify_app_revolutionary w)"
    and "run verify_app_revolutionary w ! i = Failed c e"
  shows "proceeds [Print ''Auth screen not found or already logged in'',
                   WaitForSelector ''text=SYSTEM ACTIVE'' 15000]
           (drop (Suc i) (run verify_app_revolutionary w))"
proof -
  have "failed_in verify_rev_auth_calls (run verify_app_revolutionary w ! i)" using assms by simp
  with after_nth[OF run_post[OF verify_rev_swallowed, of w]] assms(2) show ?thesis by simp
qed

lemma verify_rev_splash_failure:
  assumes "c \<in> set verify_rev_splash_calls"
    and "i < length (run verify_app_revolutionary w)"
    and "run verify_app_revolutionary w ! i = Failed c e"
  shows "proceeds [Print ''Splash screen skipped or missed'',
                   WaitForSelector ''text=ROCKHOUND'' 10000]
           (drop (Suc i) (run verify_app_revolutionary w))"
proof -
  have "failed_in verify_rev_splash_calls (run verify_app_revolutionary w ! i)"
    using assms by simp
  with after_nth[OF run_post[OF verify_rev_swallowed_splash, of w]] assms(2)
  show ?thesis by simp
qed

subsection \<open>\<^verbatim>\<open>verify_fix.py\<close>\<close>

lemma verify_fix_swallowed_auth:
  "post verify_fix (\<lambda>r x. after (failed_in [WaitForSelector ''text=ROCKHOUND'' 10000])
      (\<lambda>ev rest. proceeds [WaitForSelector ''text=SYSTEM ACTIVE'' 10000] rest) x)"
  unfolding verify_fix_scenario
  apply (rule scenario_swallowed)
  subgoal
    unfolding verify_fix_body_def
    apply (rule swallowed_block_skip, (intro emits_intros; simp))
    apply (rule swallowed_block_skip, (intro emits_intros; simp))
    apply (rule swallowed_block_here)
     apply (unfold verify_fix_load_def verify_fix_scanner_def)
     apply (rule swallowed_bare)
       apply (intro halts_all_intros; simp)
      apply (intro starts_block starts_try_except starts_invoke)
     apply (intro emits_intros; simp)
    apply (intro emits_intros)
    done
  subgoal unfolding verify_fix_handler_def by (intro emits_intros; simp)
  subgoal for ev by (drule failed_in_body) auto
  done

lemma verify_fix_swallowed_scanner:
  "post verify_fix (\<lambda>r x. after (failed_in [WaitForSelector ''text=SYSTEM ACTIVE'' 10000])
      (\<lambda>ev rest. proceeds [Print ''Still stuck or unknown state''] rest) x)"
  unfolding verify_fix_scenario
  apply (rule scenario_swallowed)
  subgoal
    unfolding verify_fix_body_def
    apply (rule swallowed_block_skip, (intro emits_intros; simp))
    apply (rule swallowed_block_skip, (intro emits_intros; simp))
    apply (rule swallowed_block_here)
     apply (unfold verify_fix_load_def verify_fix_scanner_def)
     apply (rule swallowed_handler)
      apply (intro emits_intros; simp)
     apply (rule swallowed_bare)
       apply (intro halts_all_intros; simp)
      apply (intro starts_block starts_print)
     apply (intro emits_intros; simp)
    apply (intro emits_intros)
    done
  subgoal unfolding verify_fix_handler_def by (intro emits_intros; simp)
  subgoal for ev by (drule failed_in_body) auto
  done

lemma verify_fix_wait_fallback:
  assumes j: "j < length (run verify_fix w)"
    and f: "run verify_fix w ! j = Failed (WaitForSelector m t) e"
  shows "proceeds [WaitForSelector ''text=SYSTEM ACTIVE'' 10000] (drop (Suc j) (run verify_fix w))
       \<or> proceeds [Print ''Still stuck or unknown state''] (drop (Suc j) (run verify_fix w))"
proof -
  have em: "emits (\<lambda>ev. \<forall>m t. call_of ev = WaitForSelector m t \<longrightarrow>
              call_of ev = WaitForSelector ''text=ROCKHOUND'' 10000
            \<or> call_of ev = WaitForSelector ''text=SYSTEM ACTIVE'' 10000) verify_fix"
    unfolding verify_fix_defs by (intro emits_intros; simp)
  have "run verify_fix w ! j \<in> set (run verify_fix w)" using j by simp
  from emits_run[OF em this] f
  consider "WaitForSelector m t = WaitForSelector ''text=ROCKHOUND'' 10000"
    | "WaitForSelector m t = WaitForSelector ''text=SYSTEM ACTIVE'' 10000"
    by auto
  then show ?thesis
  proof cases
    case 1
    then have "failed_in [WaitForSelector ''text=ROCKHOUND'' 10000] (run verify_fix w ! j)"
      using f by simp
    with after_nth[OF run_post[OF verify_fix_swallowed_auth, of w]] j show ?thesis by simp
  next
    case 2
    then have "failed_in [WaitForSelector ''text=SYSTEM ACTIVE'' 10000] (run verify_fix w ! j)"
      using f by simp
    with after_nth[OF run_post[OF verify_fix_swallowed_scanner, of w]] j show ?thesis by simp
  qed
qed

section \<open>Runs in particular worlds\<close>

lemma run_verify_app_misses_auth:
  "run verify_app (misses (WaitForSelector ''text=Access Protocol'' 5000)) =
     [Did Launch, Did NewPage, Did (Goto ''http://localhost:4173'' None),
      Failed (WaitForSelector ''text=Access Protocol'' 5000) (TimeoutError ''Timeout exceeded.''),
      Did (Print ''Auth screen not found or already logged in''),
      Did (WaitForSelector ''text=SYSTEM ACTIVE'' 10000), Did (Print ''Scanner view detected''),
      Did (Screenshot ''verification/2_scanner_view.png''), Did (Click ''header div.cursor-pointer''),
      Did (WaitForSelector ''text=Operative Profile'' 5000), Did (Print ''Profile view detected''),
      Did (Screenshot ''verification/3_profile_view.png''), Did (Click ''button:has(svg.lucide-x)''),
      Did (Click ''button:has(svg.lucide-box)''), Did (WaitForSelector ''text=Vault'' 5000),
      Did (Print ''Collection view detected''), Did (Screenshot ''verification/4_collection_view.png''),
      Did Close]"
  "result verify_app (misses (WaitForSelector ''text=Access Protocol'' 5000)) = Inr ()"
  by (simp_all add: eval_defs verify_app_defs world_defs)

lemma run_verify_rev_misses_auth:
  "run verify_app_revolutionary (misses (WaitForSelector ''text=ROCKHOUND'' 10000)) =
     [Did Launch, Did NewPage, Did (Print ''Navigating to app...''),
      Did (Goto ''http://localhost:4173'' (Some 60000)),
      Did (WaitForSelector ''text=INITIALIZING KERNEL...'' 10000),
      Did (Print ''Splash screen detected''),
      Did (Screenshot ''verification/1_splash.png''),
      Failed (WaitForSelector ''text=ROCKHOUND'' 10000) (TimeoutError ''Timeout exceeded.''),
      Did (Print ''Auth screen not found or already logged in''),
      Did (WaitForSelector ''text=SYSTEM ACTIVE'' 15000), Did (Print ''Scanner HUD detected''),
      Did (Screenshot ''verification/3_scanner_hud.png''),
      Did (Click ''header button:has(svg.lucide-terminal)''),
      Did (WaitForSelector ''text=Mainframe Control'' 5000), Did (Print ''Admin Dashboard detected''),
      Did (Screenshot ''verification/4_admin_dashboard.png''),
      Did (Click ''button:has(svg.lucide-arrow-left)''),
      Did (Click ''header button:has(svg.lucide-cloud-sun)''),
      Did (WaitForSelector ''text=Planetary Conditions'' 5000),
      Did (Print ''Weather Dashboard detected''),
      Did (Screenshot ''verification/5_weather_dashboard.png''), Did Close]"
  "result verify_app_revolutionary (misses (WaitForSelector ''text=ROCKHOUND'' 10000)) = Inr ()"
  by (simp_all add: eval_defs verify_rev_defs world_defs)

lemma run_verify_rev_misses_splash:
  "run verify_app_revolutionary (misses (WaitForSelector ''text=INITIALIZING KERNEL...'' 10000)) =
     [Did Launch, Did NewPage, Did (Print ''Navigating to app...''),
      Did (Goto ''http://localhost:4173'' (Some 60000)),
      Failed (WaitForSelector ''text=INITIALIZING KERNEL...'' 10000) (TimeoutError ''Timeout exceeded.''),
      Did (Print ''Splash screen skipped or missed''),
      Did (WaitForSelector ''text=ROCKHOUND'' 10000),
      Did (IsVisible ''button:has-text(\"Initialize Protocol\")''),
      Did (Print ''Auth screen detected''),
      Did (Screenshot ''verification/2_auth.png''),
      Did (Fill ''input[type=\"email\"]'' ''admin@rockhound.com''),
      Did (Fill ''input[type=\"password\"]'' ''admin''),
      Did (Click ''button:has-text(\"Authenticate\")''),
      Did (WaitForSelector ''text=SYSTEM ACTIVE'' 15000), Did (Print ''Scanner HUD detected''),
      Did (Screenshot ''verification/3_scanner_hud.png''),
      Did (Click ''header button:has(svg.lucide-terminal)''),
      Did (WaitForSelector ''text=Mainframe Control'' 5000), Did (Print ''Admin Dashboard detected''),
      Did (Screenshot ''verification/4_admin_dashboard.png''),
      Did (Click ''button:has(svg.lucide-arrow-left)''),
      Did (Click ''header button:has(svg.lucide-cloud-sun)''),
      Did (WaitForSelector ''text=Planetary Conditions'' 5000),
      Did (Print ''Weather Dashboard detected''),
      Did (Screenshot ''verification/5_weather_dashboard.png''), Did Close]"
  "result verify_app_revolutionary (misses (WaitForSelector ''text=INITIALIZING KERNEL...'' 10000)) = Inr ()"
  by (simp_all add: eval_defs verify_rev_defs world_defs)

lemma run_verify_fix_misses_auth:
  "run verify_fix (misses (WaitForSelector ''text=ROCKHOUND'' 10000)) =
     [Did Launch, Did NewPage, Did (Print ''Navigating to app...''),
      Did (Goto ''http://localhost:4173'' (Some 60000)),
      Failed (WaitForSelector ''text=ROCKHOUND'' 10000) (TimeoutError ''Timeout exceeded.''),
      Did (WaitForSelector ''text=SYSTEM ACTIVE'' 10000),
      Did (Print ''App loaded successfully (Scanner)''),
      Did (Screenshot ''verification/fixed_load.png''), Did Close]"
  "result verify_fix (misses (WaitForSelector ''text=ROCKHOUND'' 10000)) = Inr ()"
  by (simp_all add: eval_defs verify_fix_defs world_defs)

lemma run_verify_app_skips_auth_pipe_breaks:
  "run verify_app skips_auth_pipe_breaks =
     [Did Launch, Did NewPage, Did (Goto ''http://localhost:4173'' None),
      Failed (WaitForSelector ''text=Access Protocol'' 5000) (TimeoutError ''Timeout exceeded.''),
      Failed (Print ''Auth screen not found or already logged in'')
        (OtherException ''[Errno 32] Broken pipe''),
      Failed (Print ''Error: [Errno 32] Broken pipe'') (OtherException ''[Errno 32] Broken pipe''),
      Did Close]"
  "result verify_app skips_auth_pipe_breaks = Inl (OtherException ''[Errno 32] Broken pipe'')"
  by (simp_all add: eval_defs verify_app_defs world_defs)

lemma run_verify_app_login_broken:
  "run verify_app login_broken =
     [Did Launch, Did NewPage, Did (Goto ''http://localhost:4173'' None),
      Did (WaitForSelector ''text=Access Protocol'' 5000), Did (Print ''Auth screen detected''),
      Did (Screenshot ''verification/1_auth_screen.png''),
      Did (Fill ''input[type=\"email\"]'' ''admin@rockhound.com''),
      Did (Fill ''input[type=\"password\"]'' ''admin''),
      Failed (Click ''button:has-text(\"Initialize Session\")'')
        (OtherException ''Element is not attached to the DOM''),
      Did (Print ''Auth screen not found or already logged in''),
      Did (WaitForSelector ''text=SYSTEM ACTIVE'' 10000), Did (Print ''Scanner view detected''),
      Did (Screenshot ''verification/2_scanner_view.png''), Did (Click ''header div.cursor-pointer''),
      Did (WaitForSelector ''text=Operative Profile'' 5000), Did (Print ''Profile view detected''),
      Did (Screenshot ''verification/3_profile_view.png''), Did (Click ''button:has(svg.lucide-x)''),
      Did (Click ''button:has(svg.lucide-box)''), Did (WaitForSelector ''text=Vault'' 5000),
      Did (Print ''Collection view detected''), Did (Screenshot ''verification/4_collection_view.png''),
      Did Close]"
  by (simp add: eval_defs verify_app_defs world_defs)

lemma run_verify_app_error_shot_fails:
  "run verify_app error_shot_fails =
    [Did Launch, Did NewPage, Did (Goto ''http://localhost:4173'' None),
     Did (WaitForSelector ''text=Access Protocol'' 5000), Did (Print ''Auth screen detected''),
     Did (Screenshot ''verification/1_auth_screen.png''),
     Did (Fill ''input[type=\"email\"]'' ''admin@rockhound.com''),
     Did (Fill ''input[type=\"password\"]'' ''admin''),
     Did (Click ''button:has-text(\"Initialize Session\")''),
     Failed (WaitForSelector ''text=SYSTEM ACTIVE'' 10000)
       (TimeoutError ''Timeout 10000ms exceeded.''),
     Did (Print ''Error: Timeout 10000ms exceeded.''),
     Failed (Screenshot ''verification/error.png'') (OtherException ''No such file or directory''),
     Did Close]"
  "result verify_app error_shot_fails = Inl (OtherException ''No such file or directory'')"
  by (simp_all add: eval_defs verify_app_defs world_defs)

lemma run_verify_app_pipe_breaks:
  "run verify_app pipe_breaks =
    [Did Launch, Did NewPage, Did (Goto ''http://localhost:4173'' None),
     Did (WaitForSelector ''text=Access Protocol'' 5000), Did (Print ''Auth screen detected''),
     Did (Screenshot ''verification/1_auth_screen.png''),
     Did (Fill ''input[type=\"email\"]'' ''admin@rockhound.com''),
     Did (Fill ''input[type=\"password\"]'' ''admin''),
     Did (Click ''button:has-text(\"Initialize Session\")''),
     Failed (WaitForSelector ''text=SYSTEM ACTIVE'' 10000)
       (TimeoutError ''Timeout 10000ms exceeded.''),
     Failed (Print ''Error: Timeout 10000ms exceeded.'') (OtherException ''[Errno 32] Broken pipe''),
     Did Close]"
  by (simp add: eval_defs verify_app_defs world_defs)

section \<open>Optional steps\<close>

lemma optional_wait_swallowed:
  assumes t: "(c, K) \<in> set (optional_waits s)"
    and i: "i < length (run (program s) w)"
    and f: "run (program s) w ! i = Failed c e"
  shows "proceeds K (drop (Suc i) (run (program s) w))"
proof (cases s)
  case VerifyApp
  with t have c: "c = WaitForSelector ''text=Access Protocol'' 5000"
    and K: "K = [Print ''Auth screen not found or already logged in'',
                 WaitForSelector ''text=SYSTEM ACTIVE'' 10000]" by simp_all
  have "c \<in> set verify_app_auth_calls" by (simp add: c verify_app_auth_calls_def)
  from verify_app_guarded_failure[OF this, of i w e] i f
  show ?thesis by (simp add: VerifyApp K)
next
  case VerifyRevolutionary
  from t consider
      (auth) "c = WaitForSelector ''text=ROCKHOUND'' 10000"
        "K = [Print ''Auth screen not found or already logged in'',
              WaitForSelector ''text=SYSTEM ACTIVE'' 15000]"
    | (splash) "c = WaitForSelector ''text=INITIALIZING KERNEL...'' 10000"
        "K = [Print ''Splash screen skipped or missed'',
              WaitForSelector ''text=ROCKHOUND'' 10000]"
    unfolding VerifyRevolutionary by auto
  then show ?thesis
  proof cases
    case auth
    have "c \<in> set verify_rev_auth_calls" by (simp add: auth verify_rev_auth_calls_def)
    from verify_rev_guarded_failure[OF this, of i w e] i f
    show ?thesis by (simp add: VerifyRevolutionary auth)
  next
    case splash
    have "c \<in> set verify_rev_splash_calls" by (simp add: splash verify_rev_splash_calls_def)
    from verify_rev_splash_failure[OF this, of i w e] i f
    show ?thesis by (simp add: VerifyRevolutionary splash)
  qed
next
  case VerifyAppDebug
  with t show ?thesis by simp
next
  case VerifyFix
  with t have c: "c = WaitForSelector ''text=ROCKHOUND'' 10000"
    and K: "K = [WaitForSelector ''text=SYSTEM ACTIVE'' 10000]" by simp_all
  have "failed_in [WaitForSelector ''text=ROCKHOUND'' 10000] (run verify_fix w ! i)"
    using f c VerifyFix by simp
  with after_nth[OF run_post[OF verify_fix_swallowed_auth, of w]] i VerifyFix K
  show ?thesis by simp
qed

lemma optional_wait_recovers:
  assumes t: "(c, K) \<in> set (optional_waits s)"
  shows "filter (\<lambda>ev. \<not> returned ev) (run (program s) (misses c))
           = [Failed c (TimeoutError ''Timeout exceeded.'')]
       \<and> Did (final_step s) \<in> set (run (program s) (misses c))
       \<and> result (program s) (misses c) = Inr ()"
proof (cases s)
  case VerifyApp
  with t have c: "c = WaitForSelector ''text=Access Protocol'' 5000" by simp
  show ?thesis by (simp add: VerifyApp c run_verify_app_misses_auth)
next
  case VerifyRevolutionary
  from t consider "c = WaitForSelector ''text=ROCKHOUND'' 10000"
    | "c = WaitForSelector ''text=INITIALIZING KERNEL...'' 10000"
    unfolding VerifyRevolutionary by auto
  then show ?thesis
  proof cases
    case 1
    show ?thesis by (simp add: VerifyRevolutionary 1 run_verify_rev_misses_auth)
  next
    case 2
    show ?thesis by (simp add: VerifyRevolutionary 2 run_verify_rev_misses_splash)
  qed
next
  case VerifyAppDebug
  with t show ?thesis by simp
next
  case VerifyFix
  with t have c: "c = WaitForSelector ''text=ROCKHOUND'' 10000" by simp
  show ?thesis by (simp add: VerifyFix c run_verify_fix_misses_auth)
qed

text \<open>
  C3, as the code has it. When the marker wait of an optional step times out (the
  auth-screen check of \<^verbatim>\<open>verify_app.py\<close>, \<^verbatim>\<open>verify_revolutionary.py\<close> and \<^verbatim>\<open>verify_fix.py\<close>, and
  the splash check of \<^verbatim>\<open>verify_revolutionary.py\<close>), the timeout is swallowed. In
  \<^verbatim>\<open>verify_app.py\<close> and \<^verbatim>\<open>verify_revolutionary.py\<close> the next call is the \<^verbatim>\<open>print\<close> of the step's
  log line and, provided that \<^verbatim>\<open>print\<close> returns, the call after it is the marker wait of the
  next step. In \<^verbatim>\<open>verify_fix.py\<close> no log line is printed, the next call is the scanner wait.
  The scenario can then go on to the end: in the world where that one marker is missing
  and nothing else goes wrong, the timed-out wait is the only call that raises, the last
  step of the script is reached and the entry point returns normally.
\<close>

theorem optional_timeout_swallowed:
  assumes "(c, K) \<in> set (optional_waits s)"
  shows "(i < length (run (program s) w) \<and> run (program s) w ! i = Failed c (TimeoutError msg)
            \<longrightarrow> proceeds K (drop (Suc i) (run (program s) w)))
       \<and> filter (\<lambda>ev. \<not> returned ev) (run (program s) (misses c))
           = [Failed c (TimeoutError ''Timeout exceeded.'')]
       \<and> Did (final_step s) \<in> set (run (program s) (misses c))
       \<and> result (program s) (misses c) = Inr ()"
  using optional_wait_swallowed[OF assms, of i w "TimeoutError msg"] optional_wait_recovers[OF assms]
  by blast

theorem optional_timeout_swallowed_witness:
  "(WaitForSelector ''text=INITIALIZING KERNEL...'' 10000,
      [Print ''Splash screen skipped or missed'', WaitForSelector ''text=ROCKHOUND'' 10000])
     \<in> set (optional_waits VerifyRevolutionary)
   \<and> 4 < length (run (program VerifyRevolutionary) skips_auth)
   \<and> run (program VerifyRevolutionary) skips_auth ! 4
       = Failed (WaitForSelector ''text=INITIALIZING KERNEL...'' 10000) (TimeoutError ''Timeout exceeded.'')
   \<and> proceeds [Print ''Splash screen skipped or missed'', WaitForSelector ''text=ROCKHOUND'' 10000]
        (drop (Suc 4) (run (program VerifyRevolutionary) skips_auth))
   \<and> result (program VerifyRevolutionary)
        (misses (WaitForSelector ''text=INITIALIZING KERNEL...'' 10000)) = Inr ()"
proof -
  have h1: "(WaitForSelector ''text=INITIALIZING KERNEL...'' 10000,
      [Print ''Splash screen skipped or missed'', WaitForSelector ''text=ROCKHOUND'' 10000])
     \<in> set (optional_waits VerifyRevolutionary)"
    by simp
  have r: "take 5 (run (program VerifyRevolutionary) skips_auth) =
     [Did Launch, Did NewPage, Did (Print ''Navigating to app...''),
      Did (Goto ''http://localhost:4173'' (Some 60000)),
      Failed (WaitForSelector ''text=INITIALIZING KERNEL...'' 10000) (TimeoutError ''Timeout exceeded.'')]"
    by (simp add: eval_defs verify_rev_defs world_defs)
  have h2: "4 < length (run (program VerifyRevolutionary) skips_auth)"
    using arg_cong[OF r, of length] by simp
  have h3: "run (program VerifyRevolutionary) skips_auth ! 4
       = Failed (WaitForSelector ''text=INITIALIZING KERNEL...'' 10000) (TimeoutError ''Timeout exceeded.'')"
    using arg_cong[OF r, of "\<lambda>l. l ! 4"] by simp
  from optional_timeout_swallowed[OF h1, of 4 skips_auth "''Timeout exceeded.''"] h1 h2 h3
  show ?thesis by blast
qed

theorem optional_timeout_no_log_counterexample:
  "run (program VerifyFix) (misses (WaitForSelector ''text=ROCKHOUND'' 10000)) =
     [Did Launch, Did NewPage, Did (Print ''Navigating to app...''),
      Did (Goto ''http://localhost:4173'' (Some 60000)),
      Failed (WaitForSelector ''text=ROCKHOUND'' 10000) (TimeoutError ''Timeout exceeded.''),
      Did (WaitForSelector ''text=SYSTEM ACTIVE'' 10000),
      Did (Print ''App loaded successfully (Scanner)''),
      Did (Screenshot ''verification/fixed_load.png''), Did Close]
   \<and> run (program VerifyApp) skips_auth_pipe_breaks =
     [Did Launch, Did NewPage, Did (Goto ''http://localhost:4173'' None),
      Failed (WaitForSelector ''text=Access Protocol'' 5000) (TimeoutError ''Timeout exceeded.''),
      Failed (Print ''Auth screen not found or already logged in'')
        (OtherException ''[Errno 32] Broken pipe''),
      Failed (Print ''Error: [Errno 32] Broken pipe'') (OtherException ''[Errno 32] Broken pipe''),
      Did Close]
   \<and> result (program VerifyApp) skips_auth_pipe_breaks
       = Inl (OtherException ''[Errno 32] Broken pipe'')"
  by (simp add: run_verify_fix_misses_auth run_verify_app_skips_auth_pipe_breaks)

text \<open>
  C9, as the code has it. In the optional auth block of \<^verbatim>\<open>verify_app.py\<close> (and of
  \<^verbatim>\<open>verify_revolutionary.py\<close>) the bare \<^verbatim>\<open>except:\<close> swallows every exception raised inside the
  block, by whichever of its calls (the marker wait, the \<^verbatim>\<open>print\<close>, the screenshot, a fill,
  the click) and of whatever class: the next call is the \<^verbatim>\<open>print\<close> of "Auth screen not found
  or already logged in" and, provided that \<^verbatim>\<open>print\<close> returns, the call after it is the
  mandatory scanner wait.
\<close>

theorem auth_block_failure_swallowed:
  "(c \<in> set verify_app_auth_calls \<and> i < length (run verify_app w)
      \<and> run verify_app w ! i = Failed c e
    \<longrightarrow> proceeds [Print ''Auth screen not found or already logged in'',
                  WaitForSelector ''text=SYSTEM ACTIVE'' 10000]
          (drop (Suc i) (run verify_app w)))
   \<and> (c' \<in> set verify_rev_auth_calls \<and> j < length (run verify_app_revolutionary w')
      \<and> run verify_app_revolutionary w' ! j = Failed c' e'
    \<longrightarrow> proceeds [Print ''Auth screen not found or already logged in'',
                  WaitForSelector ''text=SYSTEM ACTIVE'' 15000]
          (drop (Suc j) (run verify_app_revolutionary w')))"
  using verify_app_guarded_failure[of c i w e] verify_rev_guarded_failure[of c' j w' e']
  by blast

theorem auth_block_failure_swallowed_witness:
  "Click ''button:has-text(\"Initialize Session\")'' \<in> set verify_app_auth_calls
   \<and> 8 < length (run verify_app login_broken)
   \<and> run verify_app login_broken ! 8
       = Failed (Click ''button:has-text(\"Initialize Session\")'')
           (OtherException ''Element is not attached to the DOM'')
   \<and> proceeds [Print ''Auth screen not found or already logged in'',
                WaitForSelector ''text=SYSTEM ACTIVE'' 10000]
        (drop (Suc 8) (run verify_app login_broken))
   \<and> drop (Suc 8) (run verify_app login_broken) ! 0
       = Did (Print ''Auth screen not found or already logged in'')
   \<and> WaitForSelector ''text=ROCKHOUND'' 10000 \<in> set verify_rev_auth_calls
   \<and> run verify_app_revolutionary (misses (WaitForSelector ''text=ROCKHOUND'' 10000)) ! 7
       = Failed (WaitForSelector ''text=ROCKHOUND'' 10000) (TimeoutError ''Timeout exceeded.'')
   \<and> proceeds [Print ''Auth screen not found or already logged in'',
                WaitForSelector ''text=SYSTEM ACTIVE'' 15000]
        (drop (Suc 7) (run verify_app_revolutionary (misses (WaitForSelector ''text=ROCKHOUND'' 10000))))"
proof -
  have h1: "Click ''button:has-text(\"Initialize Session\")'' \<in> set verify_app_auth_calls"
    by (simp add: verify_app_auth_calls_def)
  have h2: "8 < length (run verify_app login_broken)"
    by (simp add: run_verify_app_login_broken)
  have h3: "run verify_app login_broken ! 8
       = Failed (Click ''button:has-text(\"Initialize Session\")'')
           (OtherException ''Element is not attached to the DOM'')"
    by (simp add: run_verify_app_login_broken)
  have h4: "drop (Suc 8) (run verify_app login_broken) ! 0
       = Did (Print ''Auth screen not found or already logged in'')"
    by (simp add: run_verify_app_login_broken)
  have k1: "WaitForSelector ''text=ROCKHOUND'' 10000 \<in> set verify_rev_auth_calls"
    by (simp add: verify_rev_auth_calls_def)
  have k2: "7 < length (run verify_app_revolutionary (misses (WaitForSelector ''text=ROCKHOUND'' 10000)))"
    by (simp add: run_verify_rev_misses_auth)
  have k3: "run verify_app_revolutionary (misses (WaitForSelector ''text=ROCKHOUND'' 10000)) ! 7
       = Failed (WaitForSelector ''text=ROCKHOUND'' 10000) (TimeoutError ''Timeout exceeded.'')"
    by (simp add: run_verify_rev_misses_auth)
  from auth_block_failure_swallowed[of "Click ''button:has-text(\"Initialize Session\")''" 8
      login_broken "OtherException ''Element is not attached to the DOM''"
      "WaitForSelector ''text=ROCKHOUND'' 10000" 7
      "misses (WaitForSelector ''text=ROCKHOUND'' 10000)" "TimeoutError ''Timeout exceeded.''"]
    h1 h2 h3 h4 k1 k2 k3
  show ?thesis by blast
qed

theorem auth_block_failure_not_logged_counterexample:
  "Print ''Auth screen detected'' \<in> set verify_app_auth_calls
   \<and> run verify_app stdout_closed =
     [Did Launch, Did NewPage, Did (Goto ''http://localhost:4173'' None),
      Did (WaitForSelector ''text=Access Protocol'' 5000),
      Failed (Print ''Auth screen detected'') (OtherException ''[Errno 9] Bad file descriptor''),
      Failed (Print ''Auth screen not found or already logged in'')
        (OtherException ''[Errno 9] Bad file descriptor''),
      Failed (Print ''Error: [Errno 9] Bad file descriptor'')
        (OtherException ''[Errno 9] Bad file descriptor''),
      Did Close]"
  by (simp add: run_verify_app_stdout_closed verify_app_auth_calls_def)

section \<open>Mandatory waits\<close>

lemma mandatory_unguarded: "c \<in> set (mandatory_waits s) \<Longrightarrow> unguarded s c"
  by (cases s) (auto simp: unguarded_def outside_body_def failure_shots_def)

lemma failure_files_written:
  assumes "straight (Print m # failure_shots s) y" and "call_of cl = Close"
  shows "filter (\<lambda>p. p \<in> set (failure_files s)) (written (y @ [cl]))
           = (if list_all returned y then failure_files s else [])"
proof -
  have cl: "written [cl] = []" using assms(2) by (cases cl; cases "call_of cl") auto
  from assms(1) show ?thesis
    by (cases s) (auto simp: failure_shots_def straight_Cons written_append cl)
qed

lemma mandatory_timeout_files:
  assumes c: "c \<in> set (mandatory_waits s)"
    and i: "i < length (run (program s) w)"
    and f: "run (program s) w ! i = Failed c (TimeoutError msg)"
  shows "filter (\<lambda>p. p \<in> set (failure_files s)) (written (run (program s) w))
           = (if list_all returned (butlast (drop (Suc i) (run (program s) w)))
              then failure_files s else [])"
proof -
  let ?t = "drop (Suc i) (run (program s) w)"
  note a = unguarded_failure_aborts[OF mandatory_unguarded[OF c] i f]
  have t: "butlast ?t @ [last ?t] = ?t" using a(1) by (rule append_butlast_last_id)
  have "straight (Print (''Error: '' @ msg) # failure_shots s) (butlast ?t)" using a(3) by simp
  from failure_files_written[OF this a(2)] show ?thesis unfolding t a(5) .
qed

text \<open>
  C2, as the code has it. When a mandatory marker wait times out, the scenario is
  aborted: what follows the timed-out wait is the handler's \<^verbatim>\<open>print\<close> of the error text,
  then, only if that \<^verbatim>\<open>print\<close> returned, the failure screenshot of the script
  (\<^verbatim>\<open>error.png\<close> in \<^verbatim>\<open>verify_app.py\<close>, \<^verbatim>\<open>error_rev.png\<close> in \<^verbatim>\<open>verify_revolutionary.py\<close>, none in
  \<^verbatim>\<open>verify_app_debug.py\<close>), and last \<^verbatim>\<open>browser.close()\<close>; no other call is made. The failure
  screenshot file is written, once, exactly when those calls of the handler all returned;
  otherwise it is not written in that run. \<^verbatim>\<open>verify_fix.py\<close> has no mandatory marker wait:
  whichever of its marker waits fails, the next call is the scanner wait or the \<^verbatim>\<open>print\<close> of
  "Still stuck or unknown state" of the inner \<^verbatim>\<open>except:\<close> clauses.
\<close>

theorem mandatory_timeout_aborts:
  "(c \<in> set (mandatory_waits s) \<and> i < length (run (program s) w)
      \<and> run (program s) w ! i = Failed c (TimeoutError msg)
    \<longrightarrow> drop (Suc i) (run (program s) w) \<noteq> []
      \<and> straight (Print (''Error: '' @ msg) # failure_shots s)
           (butlast (drop (Suc i) (run (program s) w)))
      \<and> call_of (last (drop (Suc i) (run (program s) w))) = Close
      \<and> filter (\<lambda>p. p \<in> set (failure_files s)) (written (run (program s) w))
           = (if list_all returned (butlast (drop (Suc i) (run (program s) w)))
              then failure_files s else []))
   \<and> (j < length (run verify_fix v) \<and> run verify_fix v ! j = Failed (WaitForSelector m t) e
    \<longrightarrow> proceeds [WaitForSelector ''text=SYSTEM ACTIVE'' 10000] (drop (Suc j) (run verify_fix v))
      \<or> proceeds [Print ''Still stuck or unknown state''] (drop (Suc j) (run verify_fix v)))"
proof (intro conjI impI)
  assume a: "c \<in> set (mandatory_waits s) \<and> i < length (run (program s) w)
      \<and> run (program s) w ! i = Failed c (TimeoutError msg)"
  then have c: "c \<in> set (mandatory_waits s)" and i: "i < length (run (program s) w)"
    and f: "run (program s) w ! i = Failed c (TimeoutError msg)" by simp_all
  note u = unguarded_failure_aborts[OF mandatory_unguarded[OF c] i f]
  show "drop (Suc i) (run (program s) w) \<noteq> []" by (rule u(1))
  show "straight (Print (''Error: '' @ msg) # failure_shots s)
           (butlast (drop (Suc i) (run (program s) w)))" using u(3) by simp
  show "call_of (last (drop (Suc i) (run (program s) w))) = Close" by (rule u(2))
  show "filter (\<lambda>p. p \<in> set (failure_files s)) (written (run (program s) w))
           = (if list_all returned (butlast (drop (Suc i) (run (program s) w)))
              then failure_files s else [])"
    by (rule mandatory_timeout_files[OF c i f])
next
  assume "j < length (run verify_fix v) \<and> run verify_fix v ! j = Failed (WaitForSelector m t) e"
  then show "proceeds [WaitForSelector ''text=SYSTEM ACTIVE'' 10000] (drop (Suc j) (run verify_fix v))
      \<or> proceeds [Print ''Still stuck or unknown state''] (drop (Suc j) (run verify_fix v))"
    using verify_fix_wait_fallback[of j v m t e] by simp
qed

lemma run_verify_fix_skips_auth:
  "run verify_fix skips_auth =
     [Did Launch, Did NewPage, Did (Print ''Navigating to app...''),
      Did (Goto ''http://localhost:4173'' (Some 60000)),
      Failed (WaitForSelector ''text=ROCKHOUND'' 10000) (TimeoutError ''Timeout exceeded.''),
      Did (WaitForSelector ''text=SYSTEM ACTIVE'' 10000),
      Did (Print ''App loaded successfully (Scanner)''),
      Did (Screenshot ''verification/fixed_load.png''), Did Close]"
  by (simp add: eval_defs verify_fix_defs world_defs)

theorem mandatory_timeout_aborts_witness:
  "WaitForSelector ''text=SYSTEM ACTIVE'' 10000 \<in> set (mandatory_waits VerifyApp)
   \<and> 9 < length (run (program VerifyApp) scanner_missing)
   \<and> run (program VerifyApp) scanner_missing ! 9
       = Failed (WaitForSelector ''text=SYSTEM ACTIVE'' 10000)
           (TimeoutError ''Timeout 10000ms exceeded.'')
   \<and> straight (Print (''Error: '' @ ''Timeout 10000ms exceeded.'') # failure_shots VerifyApp)
        (butlast (drop (Suc 9) (run (program VerifyApp) scanner_missing)))
   \<and> call_of (last (drop (Suc 9) (run (program VerifyApp) scanner_missing))) = Close
   \<and> list_all returned (butlast (drop (Suc 9) (run (program VerifyApp) scanner_missing)))
   \<and> filter (\<lambda>p. p \<in> set (failure_files VerifyApp))
        (written (run (program VerifyApp) scanner_missing)) = [''verification/error.png'']
   \<and> run verify_fix skips_auth ! 4
       = Failed (WaitForSelector ''text=ROCKHOUND'' 10000) (TimeoutError ''Timeout exceeded.'')
   \<and> proceeds [WaitForSelector ''text=SYSTEM ACTIVE'' 10000] (drop (Suc 4) (run verify_fix skips_auth))"
proof -
  have h1: "WaitForSelector ''text=SYSTEM ACTIVE'' 10000 \<in> set (mandatory_waits VerifyApp)"
    by simp
  have h2: "9 < length (run (program VerifyApp) scanner_missing)"
    by (simp add: run_verify_app_scanner_missing)
  have h3: "run (program VerifyApp) scanner_missing ! 9
       = Failed (WaitForSelector ''text=SYSTEM ACTIVE'' 10000)
           (TimeoutError ''Timeout 10000ms exceeded.'')"
    by (simp add: run_verify_app_scanner_missing)
  have h4: "list_all returned (butlast (drop (Suc 9) (run (program VerifyApp) scanner_missing)))"
    by (simp add: run_verify_app_scanner_missing)
  have k1: "4 < length (run verify_fix skips_auth)"
    by (simp add: run_verify_fix_skips_auth)
  have k2: "run verify_fix skips_auth ! 4
       = Failed (WaitForSelector ''text=ROCKHOUND'' 10000) (TimeoutError ''Timeout exceeded.'')"
    by (simp add: run_verify_fix_skips_auth)
  have k3: "\<not> proceeds [Print ''Still stuck or unknown state''] (drop (Suc 4) (run verify_fix skips_auth))"
    by (simp add: run_verify_fix_skips_auth)
  from mandatory_timeout_aborts[of "WaitForSelector ''text=SYSTEM ACTIVE'' 10000" VerifyApp 9
      scanner_missing "''Timeout 10000ms exceeded.''" 4 skips_auth "''text=ROCKHOUND''" 10000
      "TimeoutError ''Timeout exceeded.''"]
    h1 h2 h3 h4 k1 k2 k3
  show ?thesis by (simp del: last_drop)
qed

theorem mandatory_timeout_no_screenshot_counterexample:
  "WaitForSelector ''body'' 10000 \<in> set (mandatory_waits VerifyAppDebug)
   \<and> run (program VerifyAppDebug) body_missing =
     [Did Launch, Did NewPage, Did (Print ''Navigating to app...''),
      Did (Goto ''http://localhost:4173'' (Some 60000)), Did (Print ''Waiting for body...''),
      Failed (WaitForSelector ''body'' 10000) (TimeoutError ''Timeout 10000ms exceeded.''),
      Did (Print ''Error: Timeout 10000ms exceeded.''), Did Close]
   \<and> written (run (program VerifyAppDebug) body_missing) = []
   \<and> WaitForSelector ''text=SYSTEM ACTIVE'' 10000 \<in> set (mandatory_waits VerifyApp)
   \<and> drop 9 (run (program VerifyApp) error_shot_fails) =
     [Failed (WaitForSelector ''text=SYSTEM ACTIVE'' 10000) (TimeoutError ''Timeout 10000ms exceeded.''),
      Did (Print ''Error: Timeout 10000ms exceeded.''),
      Failed (Screenshot ''verification/error.png'') (OtherException ''No such file or directory''),
      Did Close]
   \<and> written (run (program VerifyApp) error_shot_fails) = [''verification/1_auth_screen.png'']
   \<and> drop 9 (run (program VerifyApp) pipe_breaks) =
     [Failed (WaitForSelector ''text=SYSTEM ACTIVE'' 10000) (TimeoutError ''Timeout 10000ms exceeded.''),
      Failed (Print ''Error: Timeout 10000ms exceeded.'') (OtherException ''[Errno 32] Broken pipe''),
      Did Close]
   \<and> written (run (program VerifyApp) pipe_breaks) = [''verification/1_auth_screen.png'']"
  by (simp add: run_verify_app_debug_body_missing run_verify_app_error_shot_fails
      run_verify_app_pipe_breaks)

section \<open>What leaves the entry point\<close>





section \<open>Returning normally\<close>

lemma records_invoke: "records (invoke c)"
  unfolding records_def by (rule post_invoke) auto

lemma records_print: "records (print s)"
  unfolding print_def by (rule records_invoke)

lemma records_is_visible: "records (is_visible s)"
  unfolding records_def by (rule post_is_visible) auto

lemma records_title: "records title"
  unfolding records_def by (rule post_title) auto

lemma records_content: "records content"
  unfolding records_def by (rule post_content) auto

lemma records_and_then:
  assumes "records m" and "\<And>v. records (f v)"
  shows "records (and_then m f)"
  unfolding records_def
  by (rule post_and_then[OF assms(1)[unfolded records_def] assms(2)[unfolded records_def]]) auto

lemma records_block_Nil: "records (block [])"
  unfolding records_def by (rule post_block_Nil) auto

lemma records_block_Cons:
  assumes "records m" and "records (block ms)"
  shows "records (block (m # ms))"
  unfolding records_def
  by (rule post_block_Cons[OF assms[unfolded records_def]]) auto

lemma records_try_except:
  assumes "records b" and "\<And>e. records (h e)"
  shows "records (try_except b c h)"
  unfolding records_def
  by (rule post_try_except[OF assms(1)[unfolded records_def] assms(2)[unfolded records_def]]) auto

lemma records_if: "records a \<Longrightarrow> records b \<Longrightarrow> records (if c then a else b)"
  by simp

lemmas records_intros =
  records_invoke records_print records_is_visible records_title records_content
  records_and_then records_block_Nil records_block_Cons records_try_except records_if

lemma prints_print: "prints_on_success (print s)"
  unfolding prints_on_success_def by (rule post_print) auto

lemma prints_block_here:
  assumes "prints_on_success m"
  shows "prints_on_success (block (m # ms))"
  unfolding prints_on_success_def
  by (rule post_block_Cons[where ?Q2.0 = "\<lambda>r x. True", OF assms[unfolded prints_on_success_def]])
     (auto simp: post_def)

lemma prints_block_later:
  assumes "prints_on_success (block ms)"
  shows "prints_on_success (block (m # ms))"
  unfolding prints_on_success_def
  by (rule post_block_Cons[where ?Q1.0 = "\<lambda>r x. True", OF _ assms[unfolded prints_on_success_def]])
     (auto simp: post_def)

lemma scenario_returns:
  assumes B: "records B" "prints_on_success B"
    and H: "\<And>e. records (H e)" "\<And>e. emits (\<lambda>ev. outside_body s (call_of ev)) (H e)"
      "\<And>e. prints_on_success (H e)"
  shows "post (scenario B H) (\<lambda>r x. list_all (harmless s) x
          \<longrightarrow> r = Inr () \<and> (\<exists>text. Did (Print text) \<in> set x))"
proof (rule post_scenario[OF
      post_conj[OF B(1)[unfolded records_def] B(2)[unfolded prints_on_success_def]]
      post_conj[OF H(1)[unfolded records_def]
        post_conj[OF H(2)[unfolded emits_def] H(3)[unfolded prints_on_success_def]]]])
  fix rb xb rh xh and r :: "exn + unit" and cl
  let ?QH = "\<lambda>e r x. (\<forall>e. r = Inl e \<longrightarrow> (\<exists>c. Failed c e \<in> set x))
      \<and> (\<forall>ev\<in>set x. outside_body s (call_of ev))
      \<and> ((\<exists>v. r = Inr v) \<longrightarrow> (\<exists>text. Did (Print text) \<in> set x))"
  assume qb: "(\<forall>e. rb = Inl e \<longrightarrow> (\<exists>c. Failed c e \<in> set xb))
      \<and> ((\<exists>v. rb = Inr v) \<longrightarrow> (\<exists>text. Did (Print text) \<in> set xb))"
    and g: "guarded ?QH rb rh xh" and c: "closing rh r cl"
  show "list_all (harmless s) (Did Launch # Did NewPage # xb @ xh @ [cl])
    \<longrightarrow> r = Inr () \<and> (\<exists>text. Did (Print text) \<in> set (Did Launch # Did NewPage # xb @ xh @ [cl]))"
  proof
    assume hl: "list_all (harmless s) (Did Launch # Did NewPage # xb @ xh @ [cl])"
    then have hb: "\<forall>ev\<in>set xb. harmless s ev" and hh: "\<forall>ev\<in>set xh. harmless s ev"
      and hc: "harmless s cl"
      by (auto simp: list_all_iff)
    have "cl = Did Close" using c hc by (auto simp: closing_def outside_body_def)
    then have r: "r = rh" using c by (auto simp: closing_def)
    show "r = Inr () \<and> (\<exists>text. Did (Print text) \<in> set (Did Launch # Did NewPage # xb @ xh @ [cl]))"
    proof (cases rb)
      case (Inr u)
      with g qb r show ?thesis by (auto simp: guarded_def)
    next
      case (Inl e)
      with qb obtain c0 where "Failed c0 e \<in> set xb" by auto
      with hb have e: "is_Exception e" by auto
      with g Inl have qh: "?QH e rh xh" by (simp add: guarded_def)
      have "rh = Inr ()"
      proof (cases rh)
        case (Inl e2)
        with qh obtain c2 where m: "Failed c2 e2 \<in> set xh" by auto
        with qh have "outside_body s c2" by force
        with hh m show ?thesis by force
      qed simp
      with r qh show ?thesis by auto
    qed
  qed
qed (simp_all add: outside_body_def)

lemma bodies_record:
  "records verify_app_body" "records verify_app_debug_body"
  "records verify_fix_body" "records verify_rev_body"
  unfolding body_defs by (intro records_intros)+

lemma handlers_record:
  "records (verify_app_handler e)" "records (verify_app_debug_handler e)"
  "records (verify_fix_handler e)" "records (verify_rev_handler e)"
  unfolding handler_defs by (intro records_intros)+

lemma bodies_print:
  "prints_on_success verify_app_body" "prints_on_success verify_app_debug_body"
  "prints_on_success verify_fix_body" "prints_on_success verify_rev_body"
  unfolding body_defs
     apply (rule prints_block_later, rule prints_block_later, rule prints_block_later,
      rule prints_block_here, rule prints_print)
    apply (rule prints_block_here, rule prints_print)+
  done

lemma handlers_print:
  "prints_on_success (verify_app_handler e)" "prints_on_success (verify_app_debug_handler e)"
  "prints_on_success (verify_fix_handler e)" "prints_on_success (verify_rev_handler e)"
  unfolding handler_defs
  by (rule prints_print | rule prints_block_here, rule prints_print)+

lemma handlers_outside_body:
  "emits (\<lambda>ev. outside_body VerifyApp (call_of ev)) (verify_app_handler e)"
  "emits (\<lambda>ev. outside_body VerifyAppDebug (call_of ev)) (verify_app_debug_handler e)"
  "emits (\<lambda>ev. outside_body VerifyFix (call_of ev)) (verify_fix_handler e)"
  "emits (\<lambda>ev. outside_body VerifyRevolutionary (call_of ev)) (verify_rev_handler e)"
  unfolding handler_defs by (intro emits_intros; simp add: outside_body_def failure_shots_def)+

lemma program_returns:
  "post (program s) (\<lambda>r x. list_all (harmless s) x
          \<longrightarrow> r = Inr () \<and> (\<exists>text. Did (Print text) \<in> set x))"
proof (cases s)
  case VerifyApp
  show ?thesis
    unfolding VerifyApp program.simps verify_app_scenario
    by (rule scenario_returns[OF bodies_record(1) bodies_print(1) handlers_record(1)
          handlers_outside_body(1) handlers_print(1)])
next
  case VerifyAppDebug
  show ?thesis
    unfolding VerifyAppDebug program.simps verify_app_debug_scenario
    by (rule scenario_returns[OF bodies_record(2) bodies_print(2) handlers_record(2)
          handlers_outside_body(2) handlers_print(2)])
next
  case VerifyFix
  show ?thesis
    unfolding VerifyFix program.simps verify_fix_scenario
    by (rule scenario_returns[OF bodies_record(3) bodies_print(3) handlers_record(3)
          handlers_outside_body(3) handlers_print(3)])
next
  case VerifyRevolutionary
  show ?thesis
    unfolding VerifyRevolutionary program.simps verify_rev_scenario
    by (rule scenario_returns[OF bodies_record(4) bodies_print(4) handlers_record(4)
          handlers_outside_body(4) handlers_print(4)])
qed

lemma result_verify_app_scanner_missing: "result verify_app scanner_missing = Inr ()"
  by (simp add: eval_defs verify_app_defs world_defs)

lemma run_verify_app_interrupted:
  "run verify_app interrupted =
     [Did Launch, Did NewPage,
      Failed (Goto ''http://localhost:4173'' None) (NonException ''KeyboardInterrupt''),
      Did Close]"
  "result verify_app interrupted = Inl (NonException ''KeyboardInterrupt'')"
  by (simp_all add: eval_defs verify_app_defs world_defs)

lemma run_verify_fix_stdout_closed:
  "run verify_fix stdout_closed =
     [Did Launch, Did NewPage,
      Failed (Print ''Navigating to app...'') (OtherException ''[Errno 9] Bad file descriptor''),
      Failed (Print ''Error: [Errno 9] Bad file descriptor'')
        (OtherException ''[Errno 9] Bad file descriptor''),
      Did Close]"
  "result verify_fix stdout_closed = Inl (OtherException ''[Errno 9] Bad file descriptor'')"
  by (simp_all add: eval_defs verify_fix_defs world_defs)

text \<open>
  C5, as the code has it. A script returns normally, having printed at least one line, on
  the success path and on every failure path on which each exception raised is of class
  \<^verbatim>\<open>Exception\<close> and is raised by a call of the \<^verbatim>\<open>try\<close> body; that is, on every run in which
  the launch, the page creation, the \<^verbatim>\<open>print\<close> and the screenshot of the top-level handler
  and \<^verbatim>\<open>browser.close()\<close> do not raise and no exception outside \<^verbatim>\<open>Exception\<close> occurs.
\<close>

theorem returns_normally:
  assumes "list_all (harmless s) (run (program s) w)"
  shows "result (program s) w = Inr () \<and> (\<exists>text. Did (Print text) \<in> set (run (program s) w))"
  using run_post[OF program_returns, of s w] assms by simp

theorem returns_normally_witness:
  "list_all (harmless VerifyApp) (run (program VerifyApp) scanner_missing)
   \<and> Failed (WaitForSelector ''text=SYSTEM ACTIVE'' 10000) (TimeoutError ''Timeout 10000ms exceeded.'')
       \<in> set (run (program VerifyApp) scanner_missing)
   \<and> result (program VerifyApp) scanner_missing = Inr ()
   \<and> Did (Print ''Error: Timeout 10000ms exceeded.'') \<in> set (run (program VerifyApp) scanner_missing)"
proof -
  have h: "list_all (harmless VerifyApp) (run (program VerifyApp) scanner_missing)"
    by (simp add: run_verify_app_scanner_missing outside_body_def failure_shots_def)
  have k: "Failed (WaitForSelector ''text=SYSTEM ACTIVE'' 10000) (TimeoutError ''Timeout 10000ms exceeded.'')
       \<in> set (run (program VerifyApp) scanner_missing)"
    "Did (Print ''Error: Timeout 10000ms exceeded.'') \<in> set (run (program VerifyApp) scanner_missing)"
    by (simp_all add: run_verify_app_scanner_missing)
  from returns_normally[OF h] h k show ?thesis by blast
qed

theorem exception_escapes_counterexample:
  "run (program VerifyApp) error_shot_fails ! 9
     = Failed (WaitForSelector ''text=SYSTEM ACTIVE'' 10000) (TimeoutError ''Timeout 10000ms exceeded.'')
   \<and> result (program VerifyApp) error_shot_fails = Inl (OtherException ''No such file or directory'')
   \<and> result (program VerifyApp) interrupted = Inl (NonException ''KeyboardInterrupt'')
   \<and> run (program VerifyFix) stdout_closed =
     [Did Launch, Did NewPage,
      Failed (Print ''Navigating to app...'') (OtherException ''[Errno 9] Bad file descriptor''),
      Failed (Print ''Error: [Errno 9] Bad file descriptor'')
        (OtherException ''[Errno 9] Bad file descriptor''),
      Did Close]
   \<and> result (program VerifyFix) stdout_closed = Inl (OtherException ''[Errno 9] Bad file descriptor'')"
  by (simp add: run_verify_app_error_shot_fails run_verify_app_interrupted
      run_verify_fix_stdout_closed)

section \<open>The order of the steps\<close>

lemma consumesI:
  "L = U @ L' \<Longrightarrow> post m (\<lambda>r x. subseq (filter keep (map call_of x)) U) \<Longrightarrow> consumes keep m L L'"
  unfolding consumes_def by blast

lemma consumes_invoke: "consumes keep (invoke c) (c # L) L"
  by (rule consumesI[where U = "[c]"], simp, rule post_invoke) auto

lemma consumes_skip: "\<not> keep c \<Longrightarrow> consumes keep (invoke c) L L"
  by (rule consumesI[where U = "[]"], simp, rule post_invoke) auto

lemma consumes_print: "consumes keep (print s) (Print s # L) L"
  unfolding print_def by (rule consumes_invoke)

lemma consumes_skip_print: "\<not> keep (Print s) \<Longrightarrow> consumes keep (print s) L L"
  unfolding print_def by (rule consumes_skip)

lemma consumes_is_visible: "consumes keep (is_visible s) (IsVisible s # L) L"
  by (rule consumesI[where U = "[IsVisible s]"], simp, rule post_is_visible) auto

lemma consumes_title: "consumes keep title (Title # L) L"
  by (rule consumesI[where U = "[Title]"], simp, rule post_title) auto

lemma consumes_content: "consumes keep content (Content # L) L"
  by (rule consumesI[where U = "[Content]"], simp, rule post_content) auto

lemma consumes_block_Nil: "consumes keep (block []) L L"
  by (rule consumesI[where U = "[]"], simp, rule post_block_Nil) simp

lemma subseq_appendL: "subseq xs U \<Longrightarrow> subseq xs (U @ V)"
  using list_emb_append_mono[of "(=)" xs U "[]" V] by simp

lemma subseq_appendR: "subseq xs V \<Longrightarrow> subseq xs (U @ V)"
  by (rule list_emb_append2)

lemma subseq_append_both: "subseq xs U \<Longrightarrow> subseq ys V \<Longrightarrow> subseq (xs @ ys) (U @ V)"
  by (rule list_emb_append_mono)

lemma consumes_block_Cons:
  assumes "consumes keep m L L1" and "consumes keep (block ms) L1 L2"
  shows "consumes keep (block (m # ms)) L L2"
proof -
  from assms(1) obtain U where U: "L = U @ L1"
    and m: "post m (\<lambda>r x. subseq (filter keep (map call_of x)) U)"
    unfolding consumes_def by blast
  from assms(2) obtain V where V: "L1 = V @ L2"
    and ms: "post (block ms) (\<lambda>r x. subseq (filter keep (map call_of x)) V)"
    unfolding consumes_def by blast
  show ?thesis
    by (rule consumesI[where U = "U @ V"], simp add: U V, rule post_block_Cons[OF m ms])
       (simp_all add: subseq_appendL subseq_append_both)
qed

lemma consumes_and_then:
  assumes "consumes keep m L L1" and "\<And>v. consumes keep (f v) L1 L2"
  shows "consumes keep (and_then m f) L L2"
proof -
  from assms(1) obtain U where U: "L = U @ L1"
    and m: "post m (\<lambda>r x. subseq (filter keep (map call_of x)) U)"
    unfolding consumes_def by blast
  have "\<exists>V. L1 = V @ L2" using assms(2) unfolding consumes_def by blast
  then obtain V where V: "L1 = V @ L2" by blast
  have f: "post (f v) (\<lambda>r x. subseq (filter keep (map call_of x)) V)" for v
    using assms(2)[of v] V unfolding consumes_def by auto
  show ?thesis
    by (rule consumesI[where U = "U @ V"], simp add: U V, rule post_and_then[OF m f])
       (simp_all add: subseq_appendL subseq_append_both)
qed

lemma consumes_try_except:
  assumes "consumes keep b L L1" and "\<And>e. consumes keep (h e) L1 L2"
  shows "consumes keep (try_except b c h) L L2"
proof -
  from assms(1) obtain U where U: "L = U @ L1"
    and m: "post b (\<lambda>r x. subseq (filter keep (map call_of x)) U)"
    unfolding consumes_def by blast
  have "\<exists>V. L1 = V @ L2" using assms(2) unfolding consumes_def by blast
  then obtain V where V: "L1 = V @ L2" by blast
  have f: "post (h e) (\<lambda>r x. subseq (filter keep (map call_of x)) V)" for e
    using assms(2)[of e] V unfolding consumes_def by auto
  show ?thesis
    by (rule consumesI[where U = "U @ V"], simp add: U V, rule post_try_except[OF m f])
       (simp_all add: subseq_appendL subseq_append_both)
qed

lemma consumes_try_finally:
  assumes "consumes keep b L L1" and "consumes keep f L1 L2"
  shows "consumes keep (try_finally b f) L L2"
proof -
  from assms(1) obtain U where U: "L = U @ L1"
    and m: "post b (\<lambda>r x. subseq (filter keep (map call_of x)) U)"
    unfolding consumes_def by blast
  from assms(2) obtain V where V: "L1 = V @ L2"
    and f: "post f (\<lambda>r x. subseq (filter keep (map call_of x)) V)"
    unfolding consumes_def by blast
  show ?thesis
    by (rule consumesI[where U = "U @ V"], simp add: U V, rule post_try_finally[OF m f])
       (simp_all add: subseq_append_both)
qed

lemma consumes_if:
  assumes "consumes keep a L L1" and "consumes keep b L1 L2"
  shows "consumes keep (if c then a else b) L L2"
proof -
  from assms(1) obtain U where U: "L = U @ L1"
    and a: "post a (\<lambda>r x. subseq (filter keep (map call_of x)) U)"
    unfolding consumes_def by blast
  from assms(2) obtain V where V: "L1 = V @ L2"
    and b: "post b (\<lambda>r x. subseq (filter keep (map call_of x)) V)"
    unfolding consumes_def by blast
  show ?thesis
  proof (cases c)
    case True
    show ?thesis
      by (rule consumesI[where U = "U @ V"], simp add: U V, simp add: True,
          rule post_weaken[OF a], rule subseq_appendL)
  next
    case False
    show ?thesis
      by (rule consumesI[where U = "U @ V"], simp add: U V, simp add: False,
          rule post_weaken[OF b], rule subseq_appendR)
  qed
qed

lemmas consumes_intros =
  consumes_invoke consumes_print consumes_is_visible consumes_title consumes_content
  consumes_block_Nil consumes_block_Cons consumes_and_then consumes_try_except
  consumes_try_finally consumes_if

lemma consumes_run:
  assumes "consumes keep p L L'"
  shows "subseq (filter keep (map call_of (run p w))) L"
proof -
  from assms obtain U where U: "L = U @ L'"
    and m: "post p (\<lambda>r x. subseq (filter keep (map call_of x)) U)"
    unfolding consumes_def by blast
  from run_post[OF m, of w] show ?thesis unfolding U by (rule subseq_appendL)
qed

lemma verify_app_order:
  "consumes (\<lambda>c. c \<in> set (script_order VerifyApp)) verify_app (script_order VerifyApp) []"
  unfolding verify_app_defs script_order.simps
  by ((rule consumes_intros | (rule consumes_skip_print, simp add: url_def))+)

lemma verify_app_debug_order:
  "consumes (\<lambda>c. c \<in> set (script_order VerifyAppDebug)) verify_app_debug
     (script_order VerifyAppDebug) []"
  unfolding verify_app_debug_defs script_order.simps
  by ((rule consumes_intros | (rule consumes_skip_print, simp add: url_def))+)

lemma subseq_member: "x \<in> set U \<Longrightarrow> subseq [x] U"
  by (induction U) auto

lemma consumes_any_print:
  assumes "keep (Print s) \<Longrightarrow> Print s \<in> set U"
  shows "consumes keep (print s) (U @ L) L"
  unfolding print_def
  by (rule consumesI[where U = U], simp, rule post_invoke) (use assms in \<open>auto intro: subseq_member\<close>)

lemma verify_fix_order:
  "consumes (\<lambda>c. c \<in> set (script_order VerifyFix)) verify_fix (script_order VerifyFix) []"
  unfolding verify_fix_defs script_order.simps
  apply ((rule consumes_intros)+)
  apply (rule consumes_any_print[where U = "[Print ''Navigating to app...'',
      Print ''App loaded successfully (Auth screen)'',
      Print ''App loaded successfully (Scanner)'',
      Print ''Still stuck or unknown state'']", simplified])
   apply (simp add: url_def, blast)
  apply ((rule consumes_intros | (rule consumes_skip_print, simp add: url_def))+)
  done

lemma verify_rev_order:
  "consumes (\<lambda>c. c \<in> set (script_order VerifyRevolutionary)) verify_app_revolutionary
     (script_order VerifyRevolutionary) []"
  unfolding verify_rev_defs script_order.simps
  by ((rule consumes_intros | (rule consumes_skip_print, simp add: url_def))+)

lemma program_order:
  "consumes (\<lambda>c. c \<in> set (script_order s)) (program s) (script_order s) []"
  using verify_app_order verify_app_debug_order verify_fix_order verify_rev_order
  by (cases s) simp_all

lemma never_after_subseq: "subseq xs ys \<Longrightarrow> never_after a b ys \<Longrightarrow> never_after a b xs"
proof (induction rule: list_emb.induct)
  case (list_emb_Nil ys)
  then show ?case by simp
next
  case (list_emb_Cons xs ys y)
  then show ?case by simp
next
  case (list_emb_Cons2 x y xs ys)
  from list_emb_Cons2(2) have "set xs \<subseteq> set ys" by (auto dest: list_emb_set)
  with list_emb_Cons2 show ?case by auto
qed

lemma never_after_filter:
  "keep a \<Longrightarrow> keep b \<Longrightarrow> never_after a b (filter keep cs) \<Longrightarrow> never_after a b cs"
  by (induction cs) (auto split: if_splits)

lemma waits_listed:
  "emits (\<lambda>ev. is_wait (call_of ev) \<longrightarrow> call_of ev \<in> set (script_order s)) (program s)"
proof (cases s)
  case VerifyApp
  show ?thesis unfolding VerifyApp program.simps verify_app_defs
    by (intro emits_intros; simp)
next
  case VerifyAppDebug
  show ?thesis unfolding VerifyAppDebug program.simps verify_app_debug_defs
    by (intro emits_intros; simp)
next
  case VerifyFix
  show ?thesis unfolding VerifyFix program.simps verify_fix_defs
    by (intro emits_intros; simp)
next
  case VerifyRevolutionary
  show ?thesis unfolding VerifyRevolutionary program.simps verify_rev_defs
    by (intro emits_intros; simp)
qed

lemma waits_listed_once:
  "is_wait c \<Longrightarrow> length (filter ((=) c) (script_order s)) \<le> 1"
  by (cases c; cases s) auto

lemma wait_at_most_once:
  assumes "is_wait c"
  shows "count_list (map call_of (run (program s) w)) c \<le> 1"
proof (cases "c \<in> set (script_order s)")
  case True
  let ?keep = "\<lambda>c. c \<in> set (script_order s)"
  let ?calls = "map call_of (run (program s) w)"
  have "filter ((=) c) ?calls = filter ((=) c) (filter ?keep ?calls)"
    using True by (auto intro: filter_cong)
  moreover have "subseq (filter ((=) c) (filter ?keep ?calls)) (filter ((=) c) (script_order s))"
    using consumes_run[OF program_order, of s w] by (rule subseq_filter)
  ultimately have "length (filter ((=) c) ?calls) \<le> length (filter ((=) c) (script_order s))"
    by (metis list_emb_length)
  with waits_listed_once[OF assms, of s] show ?thesis
    by (simp add: count_list_eq_length_filter)
next
  case False
  have "call_of ev \<noteq> c" if "ev \<in> set (run (program s) w)" for ev
    using emits_run[OF waits_listed that] assms False by auto
  then have "filter ((=) c) (map call_of (run (program s) w)) = []"
    by (auto simp: filter_empty_conv)
  then show ?thesis by (simp add: count_list_eq_length_filter)
qed

lemma run_verify_app_calm:
  "run verify_app calm =
     [Did Launch, Did NewPage, Did (Goto ''http://localhost:4173'' None),
      Did (WaitForSelector ''text=Access Protocol'' 5000), Did (Print ''Auth screen detected''),
      Did (Screenshot ''verification/1_auth_screen.png''),
      Did (Fill ''input[type=\"email\"]'' ''admin@rockhound.com''),
      Did (Fill ''input[type=\"password\"]'' ''admin''),
      Did (Click ''button:has-text(\"Initialize Session\")''),
      Did (WaitForSelector ''text=SYSTEM ACTIVE'' 10000), Did (Print ''Scanner view detected''),
      Did (Screenshot ''verification/2_scanner_view.png''), Did (Click ''header div.cursor-pointer''),
      Did (WaitForSelector ''text=Operative Profile'' 5000), Did (Print ''Profile view detected''),
      Did (Screenshot ''verification/3_profile_view.png''), Did (Click ''button:has(svg.lucide-x)''),
      Did (Click ''button:has(svg.lucide-box)''), Did (WaitForSelector ''text=Vault'' 5000),
      Did (Print ''Collection view detected''), Did (Screenshot ''verification/4_collection_view.png''),
      Did Close]"
  by (simp add: eval_defs verify_app_defs world_defs)

text \<open>
  C6. In every run of every script the calls are made in the order of the source: the
  calls of the run that \<open>script_order\<close> lists form a subsequence of that list. So each
  marker wait is made at most once in a run, and a call that the list has only before
  another is never made after it: in \<^verbatim>\<open>verify_app.py\<close> the wait for "Vault" never precedes
  the wait for "Operative Profile", nor does the \<^verbatim>\<open>print\<close> or the screenshot of a later step
  precede the wait of an earlier one.
\<close>

theorem steps_in_fixed_order:
  "subseq (filter (\<lambda>c. c \<in> set (script_order s)) (map call_of (run (program s) w)))
     (script_order s)
   \<and> (is_wait c \<longrightarrow> count_list (map call_of (run (program s) w)) c \<le> 1)
   \<and> (a \<in> set (script_order s) \<and> b \<in> set (script_order s) \<and> never_after a b (script_order s)
        \<longrightarrow> never_after a b (map call_of (run (program s) w)))"
proof (intro conjI impI)
  show 1: "subseq (filter (\<lambda>c. c \<in> set (script_order s)) (map call_of (run (program s) w)))
     (script_order s)"
    by (rule consumes_run[OF program_order])
  show "count_list (map call_of (run (program s) w)) c \<le> 1" if "is_wait c"
    using that by (rule wait_at_most_once)
  show "never_after a b (map call_of (run (program s) w))"
    if "a \<in> set (script_order s) \<and> b \<in> set (script_order s) \<and> never_after a b (script_order s)"
  proof -
    from that never_after_subseq[OF 1]
    have "never_after a b (filter (\<lambda>c. c \<in> set (script_order s)) (map call_of (run (program s) w)))"
      by blast
    with that show ?thesis
      using never_after_filter[of "\<lambda>c. c \<in> set (script_order s)" a b] by blast
  qed
qed

theorem steps_in_fixed_order_witness:
  "is_wait (WaitForSelector ''text=Vault'' 5000)
   \<and> count_list (map call_of (run (program VerifyApp) calm)) (WaitForSelector ''text=Vault'' 5000) = 1
   \<and> WaitForSelector ''text=Operative Profile'' 5000 \<in> set (script_order VerifyApp)
   \<and> WaitForSelector ''text=Vault'' 5000 \<in> set (script_order VerifyApp)
   \<and> never_after (WaitForSelector ''text=Operative Profile'' 5000) (WaitForSelector ''text=Vault'' 5000)
        (script_order VerifyApp)
   \<and> never_after (WaitForSelector ''text=Operative Profile'' 5000) (WaitForSelector ''text=Vault'' 5000)
        (map call_of (run (program VerifyApp) calm))
   \<and> run (program VerifyApp) calm ! 13 = Did (WaitForSelector ''text=Operative Profile'' 5000)
   \<and> run (program VerifyApp) calm ! 18 = Did (WaitForSelector ''text=Vault'' 5000)"
proof -
  have h1: "is_wait (WaitForSelector ''text=Vault'' 5000)" by simp
  have h2: "WaitForSelector ''text=Operative Profile'' 5000 \<in> set (script_order VerifyApp)"
    "WaitForSelector ''text=Vault'' 5000 \<in> set (script_order VerifyApp)"
    by simp_all
  have h3: "never_after (WaitForSelector ''text=Operative Profile'' 5000)
      (WaitForSelector ''text=Vault'' 5000) (script_order VerifyApp)"
    by simp
  have h4: "1 \<le> count_list (map call_of (run (program VerifyApp) calm)) (WaitForSelector ''text=Vault'' 5000)"
    by (simp add: run_verify_app_calm)
  have h5: "run (program VerifyApp) calm ! 13 = Did (WaitForSelector ''text=Operative Profile'' 5000)"
    "run (program VerifyApp) calm ! 18 = Did (WaitForSelector ''text=Vault'' 5000)"
    by (simp_all add: run_verify_app_calm)
  from steps_in_fixed_order[of VerifyApp calm "WaitForSelector ''text=Vault'' 5000"
      "WaitForSelector ''text=Operative Profile'' 5000" "WaitForSelector ''text=Vault'' 5000"]
    h1 h2 h3 h4 h5
  show ?thesis by (simp del: never_after.simps script_order.simps)
qed

section \<open>Screenshot files\<close>

lemma set_written: "set (written tr) = {p. Did (Screenshot p) \<in> set tr}"
  by (induction tr rule: written.induct) auto

lemma shots_listed:
  "emits (\<lambda>ev. \<forall>p. call_of ev = Screenshot p \<longrightarrow> p \<in> set (screenshot_paths s)) (program s)"
proof (cases s)
  case VerifyApp
  show ?thesis unfolding VerifyApp program.simps verify_app_defs
    by (intro emits_intros; simp)
next
  case VerifyAppDebug
  show ?thesis unfolding VerifyAppDebug program.simps verify_app_debug_defs
    by (intro emits_intros; simp)
next
  case VerifyFix
  show ?thesis unfolding VerifyFix program.simps verify_fix_defs
    by (intro emits_intros; simp)
next
  case VerifyRevolutionary
  show ?thesis unfolding VerifyRevolutionary program.simps verify_rev_defs
    by (intro emits_intros; simp)
qed

lemma written_listed: "set (written (run (program s) w)) \<subseteq> set (screenshot_paths s)"
  using emits_run[OF shots_listed, of _ s w] by (auto simp: set_written)

lemma files_after_runs_bound:
  "(\<forall>tr\<in>set trs. set (written tr) \<subseteq> P) \<Longrightarrow> files_after_runs fs trs \<subseteq> fs \<union> P"
  by (induction trs arbitrary: fs) (auto simp: files_after_def)

lemma run_verify_fix_scanner_missing:
  "run verify_fix (raising [(WaitForSelector ''text=ROCKHOUND'' 10000, TimeoutError ''Timeout exceeded.''),
                            (WaitForSelector ''text=SYSTEM ACTIVE'' 10000, TimeoutError ''Timeout exceeded.'')]) =
     [Did Launch, Did NewPage, Did (Print ''Navigating to app...''),
      Did (Goto ''http://localhost:4173'' (Some 60000)),
      Failed (WaitForSelector ''text=ROCKHOUND'' 10000) (TimeoutError ''Timeout exceeded.''),
      Failed (WaitForSelector ''text=SYSTEM ACTIVE'' 10000) (TimeoutError ''Timeout exceeded.''),
      Did (Print ''Still stuck or unknown state''),
      Did (Screenshot ''verification/still_stuck.png''),
      Did Content,
      Did (Print ''<html>SYSTEM ACTIVE</html>''),
      Did Close]"
  by (simp add: eval_defs verify_fix_defs world_defs)

text \<open>
  C7, as the code has it. The path of every screenshot call of a run is one of the
  constants in the text of the script, whatever the world. So however often and in
  whatever worlds a script is run, the directory holds no files beyond those it had and the
  files of that fixed list, at most as many new files as the list is long; and running the
  script again in the same world leaves the same files as running it once.
\<close>

theorem screenshot_paths_fixed:
  "(ev \<in> set (run (program s) w) \<and> call_of ev = Screenshot p \<longrightarrow> p \<in> set (screenshot_paths s))
   \<and> files_after_runs fs (map (run (program s)) ws) \<subseteq> fs \<union> set (screenshot_paths s)
   \<and> card (files_after_runs {} (map (run (program s)) ws)) \<le> length (screenshot_paths s)
   \<and> files_after (files_after fs (run (program s) w)) (run (program s) w)
       = files_after fs (run (program s) w)"
proof (intro conjI impI)
  show "p \<in> set (screenshot_paths s)"
    if "ev \<in> set (run (program s) w) \<and> call_of ev = Screenshot p"
    using emits_run[OF shots_listed, of ev s w] that by simp
  have b: "files_after_runs fs' (map (run (program s)) ws) \<subseteq> fs' \<union> set (screenshot_paths s)" for fs'
    by (rule files_after_runs_bound) (auto dest: subsetD[OF written_listed])
  from b show "files_after_runs fs (map (run (program s)) ws) \<subseteq> fs \<union> set (screenshot_paths s)" .
  from b[of "{}"] have "card (files_after_runs {} (map (run (program s)) ws))
      \<le> card (set (screenshot_paths s))"
    by (simp add: card_mono)
  also have "\<dots> \<le> length (screenshot_paths s)" by (rule card_length)
  finally show "card (files_after_runs {} (map (run (program s)) ws)) \<le> length (screenshot_paths s)" .
  show "files_after (files_after fs (run (program s) w)) (run (program s) w)
       = files_after fs (run (program s) w)"
    by (auto simp: files_after_def)
qed

theorem screenshot_paths_fixed_witness:
  "Did (Screenshot ''verification/fixed_load.png'') \<in> set (run (program VerifyFix) calm)
   \<and> call_of (Did (Screenshot ''verification/fixed_load.png'')) = Screenshot ''verification/fixed_load.png''
   \<and> ''verification/fixed_load.png'' \<in> set (screenshot_paths VerifyFix)
   \<and> files_after_runs {}
        (map (run (program VerifyFix))
          [calm,
           raising [(WaitForSelector ''text=ROCKHOUND'' 10000, TimeoutError ''Timeout exceeded.''),
                    (WaitForSelector ''text=SYSTEM ACTIVE'' 10000, TimeoutError ''Timeout exceeded.'')],
           calm])
       = {''verification/fixed_load.png'', ''verification/still_stuck.png''}
   \<and> files_after (files_after {} (run (program VerifyFix) calm)) (run (program VerifyFix) calm)
       = {''verification/fixed_load.png''}"
proof -
  have h1: "Did (Screenshot ''verification/fixed_load.png'') \<in> set (run (program VerifyFix) calm)"
    by (simp add: run_verify_fix_calm)
  have h2: "files_after_runs {}
        (map (run (program VerifyFix))
          [calm,
           raising [(WaitForSelector ''text=ROCKHOUND'' 10000, TimeoutError ''Timeout exceeded.''),
                    (WaitForSelector ''text=SYSTEM ACTIVE'' 10000, TimeoutError ''Timeout exceeded.'')],
           calm])
       = {''verification/fixed_load.png'', ''verification/still_stuck.png''}"
    by (simp add: run_verify_fix_calm run_verify_fix_scanner_missing files_after_def insert_commute)
  have h3: "files_after {} (run (program VerifyFix) calm) = {''verification/fixed_load.png''}"
    by (simp add: run_verify_fix_calm files_after_def)
  from screenshot_paths_fixed[of "Did (Screenshot ''verification/fixed_load.png'')" VerifyFix calm
      "''verification/fixed_load.png''" "{}" "[calm]"] h1 h2 h3
  show ?thesis by simp
qed

section \<open>The debug script\<close>

lemma post_step:
  assumes "post (block ms) (\<lambda>r y. Q r (Did c # y))" and "\<And>e. Q (Inl e) [Failed c e]"
  shows "post (block (invoke c # ms)) Q"
proof (rule post_block_Cons[OF _ assms(1)])
  show "post (invoke c) (\<lambda>r x. (r = Inr () \<and> x = [Did c]) \<or> (\<exists>e. r = Inl e \<and> x = [Failed c e]))"
    by (rule post_invoke) simp_all
qed (use assms(2) in auto)

lemma post_step_print:
  assumes "post (block ms) (\<lambda>r y. Q r (Did (Print s) # y))" and "\<And>e. Q (Inl e) [Failed (Print s) e]"
  shows "post (block (print s # ms)) Q"
  unfolding print_def using assms by (rule post_step)

lemma verify_app_debug_body_shape:
  "post verify_app_debug_body
     (\<lambda>r x. (\<forall>ev\<in>set x. \<not> is_screenshot (call_of ev))
        \<or> (\<exists>sh rest. x = [Did (Print ''Navigating to app...''), Did (Goto url (Some 60000)),
                           Did (Print ''Waiting for body...''),
                           Did (WaitForSelector ''body'' 10000), sh] @ rest
              \<and> call_of sh = Screenshot ''verification/debug_state.png''
              \<and> (\<forall>ev\<in>set rest. \<not> is_screenshot (call_of ev))))"
  unfolding verify_app_debug_body_def
proof (rule post_step_print, rule post_step, rule post_step_print, rule post_step, rule post_step)
  have "emits (\<lambda>ev. \<not> is_screenshot (call_of ev))
     (block
       [and_then title (\<lambda>t. print (''Page Title: '' @ t)),
        and_then content
         (\<lambda>c. block
                [print (''Page Content Snippet: '' @ take 500 c),
                 if sublist ''Access Protocol'' c then print ''Auth screen detected via text check''
                 else if sublist ''SYSTEM ACTIVE'' c
                      then print ''Scanner view detected via text check''
                      else print ''Unknown state''])])"
    by (intro emits_intros; simp)
  then show "post
     (block
       [and_then title (\<lambda>t. print (''Page Title: '' @ t)),
        and_then content
         (\<lambda>c. block
                [print (''Page Content Snippet: '' @ take 500 c),
                 if sublist ''Access Protocol'' c then print ''Auth screen detected via text check''
                 else if sublist ''SYSTEM ACTIVE'' c
                      then print ''Scanner view detected via text check''
                      else print ''Unknown state''])])
     (\<lambda>r y. (\<forall>ev\<in>set (Did (Print ''Navigating to app...'') # Did (Goto url (Some 60000)) #
                Did (Print ''Waiting for body...'') # Did (WaitForSelector ''body'' 10000) #
                Did (Screenshot ''verification/debug_state.png'') # y).
                \<not> is_screenshot (call_of ev))
        \<or> (\<exists>sh rest. Did (Print ''Navigating to app...'') # Did (Goto url (Some 60000)) #
                Did (Print ''Waiting for body...'') # Did (WaitForSelector ''body'' 10000) #
                Did (Screenshot ''verification/debug_state.png'') # y
              = [Did (Print ''Navigating to app...''), Did (Goto url (Some 60000)),
                           Did (Print ''Waiting for body...''),
                           Did (WaitForSelector ''body'' 10000), sh] @ rest
              \<and> call_of sh = Screenshot ''verification/debug_state.png''
              \<and> (\<forall>ev\<in>set rest. \<not> is_screenshot (call_of ev))))"
    unfolding emits_def by (rule post_weaken) simp
qed simp_all

lemma verify_app_debug_shape:
  "post verify_app_debug
     (\<lambda>r x. (\<forall>ev\<in>set x. \<not> is_screenshot (call_of ev))
        \<or> (\<exists>sh rest. x = [Did Launch, Did NewPage,
                           Did (Print ''Navigating to app...''), Did (Goto url (Some 60000)),
                           Did (Print ''Waiting for body...''),
                           Did (WaitForSelector ''body'' 10000), sh] @ rest
              \<and> call_of sh = Screenshot ''verification/debug_state.png''
              \<and> (\<forall>ev\<in>set rest. \<not> is_screenshot (call_of ev))))"
  unfolding verify_app_debug_scenario
proof (rule post_scenario[OF verify_app_debug_body_shape,
      where QH = "\<lambda>e r x. \<forall>ev\<in>set x. \<not> is_screenshot (call_of ev)"])
  fix e :: exn
  show "post (verify_app_debug_handler e) (\<lambda>r x. \<forall>ev\<in>set x. \<not> is_screenshot (call_of ev))"
    unfolding verify_app_debug_handler_def by (rule post_print) simp_all
next
  fix rb xb rh xh and r :: "exn + unit" and cl
  assume b: "(\<forall>ev\<in>set xb. \<not> is_screenshot (call_of ev))
        \<or> (\<exists>sh rest. xb = [Did (Print ''Navigating to app...''), Did (Goto url (Some 60000)),
                           Did (Print ''Waiting for body...''),
                           Did (WaitForSelector ''body'' 10000), sh] @ rest
              \<and> call_of sh = Screenshot ''verification/debug_state.png''
              \<and> (\<forall>ev\<in>set rest. \<not> is_screenshot (call_of ev)))"
    and g: "guarded (\<lambda>e r x. \<forall>ev\<in>set x. \<not> is_screenshot (call_of ev)) rb rh xh"
    and c: "closing rh r cl"
  have xh: "\<forall>ev\<in>set xh. \<not> is_screenshot (call_of ev)"
    using g by (auto simp: guarded_def split: sum.splits if_splits)
  have cl: "\<not> is_screenshot (call_of cl)" using c by (auto simp: closing_def)
  from b show "(\<forall>ev\<in>set (Did Launch # Did NewPage # xb @ xh @ [cl]). \<not> is_screenshot (call_of ev))
        \<or> (\<exists>sh rest. Did Launch # Did NewPage # xb @ xh @ [cl] = [Did Launch, Did NewPage,
                           Did (Print ''Navigating to app...''), Did (Goto url (Some 60000)),
                           Did (Print ''Waiting for body...''),
                           Did (WaitForSelector ''body'' 10000), sh] @ rest
              \<and> call_of sh = Screenshot ''verification/debug_state.png''
              \<and> (\<forall>ev\<in>set rest. \<not> is_screenshot (call_of ev)))"
  proof
    assume "\<forall>ev\<in>set xb. \<not> is_screenshot (call_of ev)"
    with xh cl show ?thesis by auto
  next
    assume "\<exists>sh rest. xb = [Did (Print ''Navigating to app...''), Did (Goto url (Some 60000)),
                           Did (Print ''Waiting for body...''),
                           Did (WaitForSelector ''body'' 10000), sh] @ rest
              \<and> call_of sh = Screenshot ''verification/debug_state.png''
              \<and> (\<forall>ev\<in>set rest. \<not> is_screenshot (call_of ev))"
    then obtain sh rest where x: "xb = [Did (Print ''Navigating to app...''), Did (Goto url (Some 60000)),
                           Did (Print ''Waiting for body...''),
                           Did (WaitForSelector ''body'' 10000), sh] @ rest"
      and s: "call_of sh = Screenshot ''verification/debug_state.png''"
      and r: "\<forall>ev\<in>set rest. \<not> is_screenshot (call_of ev)" by blast
    have "Did Launch # Did NewPage # xb @ xh @ [cl] = [Did Launch, Did NewPage,
                           Did (Print ''Navigating to app...''), Did (Goto url (Some 60000)),
                           Did (Print ''Waiting for body...''),
                           Did (WaitForSelector ''body'' 10000), sh] @ (rest @ xh @ [cl])"
      by (simp add: x)
    moreover have "\<forall>ev\<in>set (rest @ xh @ [cl]). \<not> is_screenshot (call_of ev)"
      using r xh cl by auto
    ultimately show ?thesis using s by blast
  qed
qed simp_all

lemma written_no_shot: "(\<forall>ev\<in>set x. \<not> is_screenshot (call_of ev)) \<Longrightarrow> written x = []"
  by (induction x rule: written.induct) auto

lemma debug_calls:
  "emits (\<lambda>ev. \<not> interaction (call_of ev)
       \<and> (is_print (call_of ev) \<or> call_of ev \<in> set (script_order VerifyAppDebug))) verify_app_debug"
  unfolding verify_app_debug_defs by (intro emits_intros; simp)

lemma debug_screenshot:
  assumes i: "i < length (run verify_app_debug w)"
    and s: "is_screenshot (call_of (run verify_app_debug w ! i))"
  shows "call_of (run verify_app_debug w ! i) = Screenshot ''verification/debug_state.png''
       \<and> 0 < i \<and> run verify_app_debug w ! (i - 1) = Did (WaitForSelector ''body'' 10000)"
proof -
  let ?R = "run verify_app_debug w"
  from i s have "\<not> (\<forall>ev\<in>set ?R. \<not> is_screenshot (call_of ev))" by (meson nth_mem)
  with run_post[OF verify_app_debug_shape, of w]
  obtain sh rest where x: "?R = [Did Launch, Did NewPage,
                           Did (Print ''Navigating to app...''), Did (Goto url (Some 60000)),
                           Did (Print ''Waiting for body...''),
                           Did (WaitForSelector ''body'' 10000), sh] @ rest"
      and sh: "call_of sh = Screenshot ''verification/debug_state.png''"
      and r: "\<forall>ev\<in>set rest. \<not> is_screenshot (call_of ev)" by blast
  have "i = 6"
  proof (rule ccontr)
    assume n: "i \<noteq> 6"
    show False
    proof (cases "i < 6")
      case True
      then have "i \<in> {0, 1, 2, 3, 4, 5}" by auto
      with s x show False by auto
    next
      case False
      with n have g: "7 \<le> i" by simp
      define pre where "pre = [Did Launch, Did NewPage,
                           Did (Print ''Navigating to app...''), Did (Goto url (Some 60000)),
                           Did (Print ''Waiting for body...''),
                           Did (WaitForSelector ''body'' 10000), sh]"
      have p: "?R = pre @ rest" "length pre = 7" unfolding pre_def x by simp_all
      from g have "?R ! i = rest ! (i - 7)" unfolding p(1) by (simp add: nth_append p(2))
      moreover have "i - 7 < length rest" using i g unfolding p(1) by (simp add: p(2))
      ultimately have "?R ! i \<in> set rest" by (metis nth_mem)
      with r s show False by blast
    qed
  qed
  then show ?thesis using x sh by simp
qed

lemma debug_written:
  "written (run verify_app_debug w) = [] \<or> written (run verify_app_debug w) = [''verification/debug_state.png'']"
proof -
  from run_post[OF verify_app_debug_shape, of w]
  show ?thesis
  proof
    assume "\<forall>ev\<in>set (run verify_app_debug w). \<not> is_screenshot (call_of ev)"
    then show ?thesis by (simp add: written_no_shot)
  next
    assume "\<exists>sh rest. run verify_app_debug w = [Did Launch, Did NewPage,
                           Did (Print ''Navigating to app...''), Did (Goto url (Some 60000)),
                           Did (Print ''Waiting for body...''),
                           Did (WaitForSelector ''body'' 10000), sh] @ rest
              \<and> call_of sh = Screenshot ''verification/debug_state.png''
              \<and> (\<forall>ev\<in>set rest. \<not> is_screenshot (call_of ev))"
    then obtain sh rest where x: "run verify_app_debug w = [Did Launch, Did NewPage,
                           Did (Print ''Navigating to app...''), Did (Goto url (Some 60000)),
                           Did (Print ''Waiting for body...''),
                           Did (WaitForSelector ''body'' 10000), sh] @ rest"
      and sh: "call_of sh = Screenshot ''verification/debug_state.png''"
      and r: "\<forall>ev\<in>set rest. \<not> is_screenshot (call_of ev)" by blast
    from sh r show ?thesis unfolding x by (cases sh) (simp_all add: written_no_shot)
  qed
qed

lemma run_verify_app_debug_calm:
  "run verify_app_debug calm =
     [Did Launch, Did NewPage, Did (Print ''Navigating to app...''),
      Did (Goto ''http://localhost:4173'' (Some 60000)), Did (Print ''Waiting for body...''),
      Did (WaitForSelector ''body'' 10000), Did (Screenshot ''verification/debug_state.png''),
      Did Title, Did (Print ''Page Title: ROCKHOUND''), Did Content,
      Did (Print ''Page Content Snippet: <html>SYSTEM ACTIVE</html>''),
      Did (Print ''Scanner view detected via text check''), Did Close]"
  by (simp add: eval_defs verify_app_debug_defs world_defs sublist_Cons_right)

text \<open>
  C10. \<^verbatim>\<open>verify_app_debug.py\<close> makes no fill and no click: every call of a run is a \<^verbatim>\<open>print\<close>
  or one of the launch, the page creation, the navigation, the wait for \<^verbatim>\<open>body\<close>, the
  screenshot, the reading of the title and of the content, and the close. A run writes no
  screenshot file or the one file \<^verbatim>\<open>verification/debug_state.png\<close>, and a screenshot call is
  made only to that path and only directly after the wait for \<^verbatim>\<open>body\<close> has returned.
\<close>

theorem debug_script_only_observes:
  "(ev \<in> set (run verify_app_debug w) \<longrightarrow>
       \<not> interaction (call_of ev)
     \<and> (is_print (call_of ev) \<or> call_of ev \<in> set (script_order VerifyAppDebug)))
   \<and> (written (run verify_app_debug w) = []
       \<or> written (run verify_app_debug w) = [''verification/debug_state.png''])
   \<and> (i < length (run verify_app_debug w) \<and> is_screenshot (call_of (run verify_app_debug w ! i)) \<longrightarrow>
        call_of (run verify_app_debug w ! i) = Screenshot ''verification/debug_state.png''
      \<and> 0 < i \<and> run verify_app_debug w ! (i - 1) = Did (WaitForSelector ''body'' 10000))"
  using emits_run[OF debug_calls, of ev w] debug_written[of w] debug_screenshot[of i w]
  by blast

theorem debug_script_only_observes_witness:
  "Did (Screenshot ''verification/debug_state.png'') \<in> set (run verify_app_debug calm)
   \<and> written (run verify_app_debug calm) = [''verification/debug_state.png'']
   \<and> 6 < length (run verify_app_debug calm)
   \<and> is_screenshot (call_of (run verify_app_debug calm ! 6))
   \<and> run verify_app_debug calm ! (6 - 1) = Did (WaitForSelector ''body'' 10000)
   \<and> written (run verify_app_debug body_missing) = []"
proof -
  have h1: "Did (Screenshot ''verification/debug_state.png'') \<in> set (run verify_app_debug calm)"
    by (simp add: run_verify_app_debug_calm)
  have h2: "6 < length (run verify_app_debug calm)"
    "is_screenshot (call_of (run verify_app_debug calm ! 6))"
    by (simp_all add: run_verify_app_debug_calm)
  have h3: "written (run verify_app_debug calm) \<noteq> []"
    "written (run verify_app_debug body_missing) = []"
    by (simp_all add: run_verify_app_debug_calm run_verify_app_debug_body_missing)
  from debug_script_only_observes[of "Did (Screenshot ''verification/debug_state.png'')" calm 6]
    h1 h2 h3
  show ?thesis by simp
qed

section \<open>The print of page text\<close>

lemma halts_first_print: "halts_first (print s)"
  unfolding halts_first_def by (rule post_print) simp_all

lemma halts_first_block:
  assumes "halts_first m"
  shows "halts_first (block (m # ms))"
  unfolding halts_first_def
proof (rule post_block_Cons[where ?Q2.0 = "\<lambda>r x. True", OF assms[unfolded halts_first_def]])
  fix x :: trace and r :: "exn + unit" and y
  assume "x \<noteq> [] \<and> (\<forall>c e rest. x = Failed c e # rest \<longrightarrow> rest = [] \<and> (Inr () :: exn + unit) = Inl e)"
  then show "x @ y \<noteq> [] \<and> (\<forall>c e rest. x @ y = Failed c e # rest \<longrightarrow> rest = [] \<and> r = Inl e)"
    by (cases x) auto
qed (simp_all add: post_def)

lemma halts_next_emits: "emits (\<lambda>ev. \<not> S ev) m \<Longrightarrow> halts_next S m"
  unfolding emits_def halts_next_def by (erule post_weaken) (simp add: after_none)

lemma halts_next_content:
  assumes f: "\<And>v. halts_first (f v)" and n: "\<And>v. emits (\<lambda>ev. ev \<noteq> Did Content) (f v)"
  shows "halts_next (\<lambda>ev. ev = Did Content) (and_then content f)"
  unfolding halts_next_def
proof (rule post_and_then[where ?Q1.0 = "\<lambda>r x. (\<exists>v. r = Inr v \<and> x = [Did Content])
        \<or> (\<exists>e. r = Inl e \<and> x = [Failed Content e])",
      OF _ post_conj[OF f[unfolded halts_first_def] n[unfolded emits_def]]])
  show "post content (\<lambda>r x. (\<exists>v. r = Inr v \<and> x = [Did Content])
        \<or> (\<exists>e. r = Inl e \<and> x = [Failed Content e]))"
    by (rule post_content) simp_all
next
  fix v :: string and x :: trace and r :: "exn + 'a" and y
  assume a: "(\<exists>va. (Inr v :: exn + string) = Inr va \<and> x = [Did Content])
        \<or> (\<exists>e. (Inr v :: exn + string) = Inl e \<and> x = [Failed Content e])"
    and b: "(y \<noteq> [] \<and> (\<forall>c e rest. y = Failed c e # rest \<longrightarrow> rest = [] \<and> r = Inl e))
        \<and> (\<forall>ev\<in>set y. ev \<noteq> Did Content)"
  from a have x: "x = [Did Content]" by simp
  from b have "after (\<lambda>ev. ev = Did Content) (\<lambda>ev rest. rest \<noteq> []
        \<and> (\<forall>c e rest'. rest = Failed c e # rest' \<longrightarrow> rest' = [] \<and> r = Inl e)) y"
    by (simp add: after_none)
  with b show "after (\<lambda>ev. ev = Did Content) (\<lambda>ev rest. rest \<noteq> []
        \<and> (\<forall>c e rest'. rest = Failed c e # rest' \<longrightarrow> rest' = [] \<and> r = Inl e)) (x @ y)"
    unfolding x by simp
qed auto

lemma halts_next_block_skip:
  assumes "emits (\<lambda>ev. \<not> S ev) m" and "halts_next S (block ms)"
  shows "halts_next S (block (m # ms))"
  unfolding halts_next_def
  by (rule post_block_Cons[OF assms(1)[unfolded emits_def] assms(2)[unfolded halts_next_def]])
     (simp_all add: after_append after_none)

lemma halts_next_block_last:
  assumes "halts_next S m"
  shows "halts_next S (block [m])"
  unfolding halts_next_def
proof (rule post_block_Cons[where ?Q2.0 = "\<lambda>r x. x = []", OF assms[unfolded halts_next_def]])
  fix x :: trace and r :: "exn + unit" and y :: trace
  assume a: "after S (\<lambda>ev rest. rest \<noteq> []
        \<and> (\<forall>c e rest'. rest = Failed c e # rest' \<longrightarrow> rest' = [] \<and> (Inr () :: exn + unit) = Inl e)) x"
    and y: "y = []"
  from a have "after S (\<lambda>ev rest. rest \<noteq> []
        \<and> (\<forall>c e rest'. rest = Failed c e # rest' \<longrightarrow> rest' = [] \<and> r = Inl e)) x"
    by (rule after_mono) auto
  then show "after S (\<lambda>ev rest. rest \<noteq> []
        \<and> (\<forall>c e rest'. rest = Failed c e # rest' \<longrightarrow> rest' = [] \<and> r = Inl e)) (x @ y)"
    by (simp add: y)
qed (simp_all add: post_def)

lemma halts_next_handler:
  assumes b: "emits (\<lambda>ev. \<not> S ev) b" and h: "\<And>e. halts_next S (h e)"
  shows "halts_next S (try_except b c h)"
  unfolding halts_next_def
  by (rule post_try_except[OF b[unfolded emits_def] h[unfolded halts_next_def]])
     (simp_all add: after_append after_none)

lemma scenario_abort_next:
  assumes B: "halts_next S B"
    and H: "\<And>e. is_Exception e \<Longrightarrow> post (H e) (\<lambda>r x. straight (K e) x \<and> (\<forall>ev\<in>set x. \<not> S ev))"
    and S: "\<And>ev. S ev \<Longrightarrow> call_of ev \<notin> {Launch, NewPage, Close}"
  shows "post (scenario B H) (\<lambda>r x. after S (\<lambda>ev rest. \<forall>c e rest'. rest = Failed c e # rest' \<longrightarrow>
           rest' \<noteq> [] \<and> call_of (last rest') = Close
         \<and> (if is_Exception e then straight (K e) (butlast rest') else butlast rest' = [])) x)"
proof (rule post_scenario[OF B[unfolded halts_next_def] H])
  let ?Q = "\<lambda>ev rest. \<forall>c e rest'. rest = Failed c e # rest' \<longrightarrow>
           rest' \<noteq> [] \<and> call_of (last rest') = Close
         \<and> (if is_Exception e then straight (K e) (butlast rest') else butlast rest' = [])"
  fix rb xb rh xh and r :: "exn + unit" and cl
  assume a: "after S (\<lambda>ev rest. rest \<noteq> []
        \<and> (\<forall>c e rest'. rest = Failed c e # rest' \<longrightarrow> rest' = [] \<and> rb = Inl e)) xb"
    and g: "guarded (\<lambda>e r x. straight (K e) x \<and> (\<forall>ev\<in>set x. \<not> S ev)) rb rh xh"
    and c: "closing rh r cl"
  have xh: "\<forall>ev\<in>set xh. \<not> S ev"
    using g by (auto simp: guarded_def split: sum.splits if_splits)
  have cl: "\<not> S cl" "call_of cl = Close" using c S[of cl] by (auto simp: closing_def)
  have step: "?Q ev (rest @ xh @ [cl])"
    if q: "rest \<noteq> [] \<and> (\<forall>c e rest'. rest = Failed c e # rest' \<longrightarrow> rest' = [] \<and> rb = Inl e)"
    for ev rest
  proof (intro allI impI)
    fix c e rest'
    assume eq: "rest @ xh @ [cl] = Failed c e # rest'"
    from q obtain ev1 rest1 where r1: "rest = ev1 # rest1" by (cases rest) auto
    with eq have "ev1 = Failed c e" and r': "rest' = rest1 @ xh @ [cl]" by simp_all
    with q r1 have "rest1 = []" and rb: "rb = Inl e" by simp_all
    with r' have r'': "rest' = xh @ [cl]" by simp
    from g rb have "if is_Exception e then straight (K e) xh else xh = []"
      by (auto simp: guarded_def)
    with r'' cl show "rest' \<noteq> [] \<and> call_of (last rest') = Close
         \<and> (if is_Exception e then straight (K e) (butlast rest') else butlast rest' = [])"
      by simp
  qed
  from a have "after S (\<lambda>ev rest. ?Q ev (rest @ xh @ [cl])) xb"
    by (rule after_mono) (rule step)
  with xh cl S[of "Did Launch"] S[of "Did NewPage"]
  show "after S ?Q (Did Launch # Did NewPage # xb @ xh @ [cl])"
    by (auto simp: after_append after_none)
qed (auto dest!: S)

lemma verify_app_debug_body_content:
  "halts_next (\<lambda>ev. ev = Did Content) verify_app_debug_body"
  unfolding verify_app_debug_body_def
  apply (rule halts_next_block_skip, (intro emits_intros; simp))
  apply (rule halts_next_block_skip, (intro emits_intros; simp))
  apply (rule halts_next_block_skip, (intro emits_intros; simp))
  apply (rule halts_next_block_skip, (intro emits_intros; simp))
  apply (rule halts_next_block_skip, (intro emits_intros; simp))
  apply (rule halts_next_block_skip, (intro emits_intros; simp))
  apply (rule halts_next_block_last)
  apply (rule halts_next_content)
   apply (rule halts_first_block, rule halts_first_print)
  apply (intro emits_intros; simp)
  done

lemma verify_fix_body_content:
  "halts_next (\<lambda>ev. ev = Did Content) verify_fix_body"
  unfolding verify_fix_body_def verify_fix_load_def verify_fix_scanner_def
  apply (rule halts_next_block_skip, (intro emits_intros; simp))
  apply (rule halts_next_block_skip, (intro emits_intros; simp))
  apply (rule halts_next_block_last)
  apply (rule halts_next_handler, (intro emits_intros; simp))
  apply (rule halts_next_handler, (intro emits_intros; simp))
  apply (rule halts_next_block_skip, (intro emits_intros; simp))
  apply (rule halts_next_block_skip, (intro emits_intros; simp))
  apply (rule halts_next_block_last)
  apply (rule halts_next_content)
   apply (rule halts_first_print)
  apply (intro emits_intros; simp)
  done

lemma program_content_abort:
  "post (program s) (\<lambda>r x. after (\<lambda>ev. ev = Did Content)
      (\<lambda>ev rest. \<forall>c e rest'. rest = Failed c e # rest' \<longrightarrow>
           rest' \<noteq> [] \<and> call_of (last rest') = Close
         \<and> (if is_Exception e
            then straight (Print (''Error: '' @ str e) # failure_shots s) (butlast rest')
            else butlast rest' = [])) x)"
proof (cases s)
  case VerifyApp
  have "emits (\<lambda>ev. \<not> ev = Did Content) verify_app"
    unfolding verify_app_defs by (intro emits_intros; simp)
  then show ?thesis
    unfolding VerifyApp program.simps emits_def by (rule post_weaken) (simp add: after_none)
next
  case VerifyRevolutionary
  have "emits (\<lambda>ev. \<not> ev = Did Content) verify_app_revolutionary"
    unfolding verify_rev_defs by (intro emits_intros; simp)
  then show ?thesis
    unfolding VerifyRevolutionary program.simps emits_def
    by (rule post_weaken) (simp add: after_none)
next
  case VerifyAppDebug
  show ?thesis
    unfolding VerifyAppDebug program.simps verify_app_debug_scenario
    apply (rule scenario_abort_next[OF verify_app_debug_body_content])
    subgoal for e
      unfolding verify_app_debug_handler_def failure_shots_def failure_files.simps list.map
      by (rule post_print) simp_all
    by auto
next
  case VerifyFix
  show ?thesis
    unfolding VerifyFix program.simps verify_fix_scenario
    apply (rule scenario_abort_next[OF verify_fix_body_content])
    subgoal for e
      unfolding verify_fix_handler_def failure_shots_def failure_files.simps list.map
      by (rule post_print) simp_all
    by auto
qed

lemma page_text_print_failure_aborts:
  assumes p: "0 < i" "run (program s) w ! (i - 1) = Did Content"
    and i: "i < length (run (program s) w)" and f: "run (program s) w ! i = Failed c e"
  shows "drop (Suc i) (run (program s) w) \<noteq> []
       \<and> call_of (last (drop (Suc i) (run (program s) w))) = Close
       \<and> (if is_Exception e
          then straight (Print (''Error: '' @ str e) # failure_shots s)
                 (butlast (drop (Suc i) (run (program s) w)))
          else butlast (drop (Suc i) (run (program s) w)) = [])"
proof -
  let ?R = "run (program s) w"
  have j: "i - 1 < length ?R" using i by simp
  have d: "drop (Suc (i - 1)) ?R = Failed c e # drop (Suc i) ?R"
    using p(1) i f by (simp add: Cons_nth_drop_Suc[symmetric])
  from after_nth[OF run_post[OF program_content_abort, of s w] j p(2)]
  show ?thesis unfolding d by blast
qed

lemma run_verify_fix_error_page:
  "run verify_fix error_page =
     [Did Launch, Did NewPage, Did (Print ''Navigating to app...''),
      Did (Goto ''http://localhost:4173'' (Some 60000)),
      Failed (WaitForSelector ''text=ROCKHOUND'' 10000) (TimeoutError ''Timeout exceeded.''),
      Failed (WaitForSelector ''text=SYSTEM ACTIVE'' 10000) (TimeoutError ''Timeout exceeded.''),
      Did (Print ''Still stuck or unknown state''),
      Did (Screenshot ''verification/still_stuck.png''),
      Did Content,
      Failed (Print ''Error: 404 Not Found'') (OtherException ''[Errno 32] Broken pipe''),
      Failed (Print ''Error: [Errno 32] Broken pipe'') (OtherException ''[Errno 32] Broken pipe''),
      Did Close]"
  by (simp add: eval_defs verify_fix_defs world_defs)

text \<open>
  C4, as the code has it. A marker timeout is not the only failure that reaches the
  top-level handler. In every script, when a call of the \<^verbatim>\<open>try\<close> body that no inner
  \<^verbatim>\<open>except:\<close> guards raises an exception of class \<^verbatim>\<open>Exception\<close>, whatever its kind (a timeout
  of a mandatory wait, a navigation error of \<^verbatim>\<open>page.goto\<close>, a failed click, screenshot,
  \<^verbatim>\<open>title\<close>, \<^verbatim>\<open>content\<close> or \<^verbatim>\<open>print\<close>), the handler is entered: what follows the failed call is
  the handler's \<^verbatim>\<open>print\<close> of the error text, then, only if that \<^verbatim>\<open>print\<close> returned, the failure
  screenshot of the script if it has one, and last \<^verbatim>\<open>browser.close()\<close>. An exception that is
  not of class \<^verbatim>\<open>Exception\<close> passes the handler by: only \<^verbatim>\<open>browser.close()\<close> follows. The
  unguarded calls are told by what they are (\<open>unguarded\<close>); the \<^verbatim>\<open>print\<close> of page text, whose
  line may be any, by its place directly after the read of the content.
\<close>

theorem unguarded_failure_reaches_handler:
  assumes "unguarded s c \<or> (0 < i \<and> run (program s) w ! (i - 1) = Did Content)"
    and "i < length (run (program s) w)" and "run (program s) w ! i = Failed c e"
  shows "drop (Suc i) (run (program s) w) \<noteq> []
       \<and> call_of (last (drop (Suc i) (run (program s) w))) = Close
       \<and> (is_Exception e \<longrightarrow>
            straight (Print (''Error: '' @ str e) # failure_shots s)
              (butlast (drop (Suc i) (run (program s) w))))
       \<and> (\<not> is_Exception e \<longrightarrow> butlast (drop (Suc i) (run (program s) w)) = [])"
  using assms(1)
proof
  assume "unguarded s c"
  from unguarded_failure_aborts(1-4)[OF this assms(2,3)] show ?thesis by blast
next
  assume "0 < i \<and> run (program s) w ! (i - 1) = Did Content"
  then have "0 < i" "run (program s) w ! (i - 1) = Did Content" by simp_all
  from page_text_print_failure_aborts[OF this assms(2,3)] show ?thesis by presburger
qed

theorem unguarded_failure_reaches_handler_witness:
  "unguarded VerifyApp (Goto url None)
   \<and> 2 < length (run (program VerifyApp) server_down)
   \<and> run (program VerifyApp) server_down ! 2
       = Failed (Goto url None) (OtherException ''net::ERR_CONNECTION_REFUSED'')
   \<and> is_Exception (OtherException ''net::ERR_CONNECTION_REFUSED'')
   \<and> straight (Print (''Error: '' @ str (OtherException ''net::ERR_CONNECTION_REFUSED''))
                # failure_shots VerifyApp)
        (butlast (drop (Suc 2) (run (program VerifyApp) server_down)))
   \<and> call_of (last (drop (Suc 2) (run (program VerifyApp) server_down))) = Close
   \<and> unguarded VerifyApp (Print ''Auth screen not found or already logged in'')
   \<and> run (program VerifyApp) stdout_closed ! 5
       = Failed (Print ''Auth screen not found or already logged in'')
           (OtherException ''[Errno 9] Bad file descriptor'')
   \<and> straight (Print (''Error: '' @ str (OtherException ''[Errno 9] Bad file descriptor''))
                # failure_shots VerifyApp)
        (butlast (drop (Suc 5) (run (program VerifyApp) stdout_closed)))
   \<and> run (program VerifyFix) error_page ! (9 - 1) = Did Content
   \<and> run (program VerifyFix) error_page ! 9
       = Failed (Print ''Error: 404 Not Found'') (OtherException ''[Errno 32] Broken pipe'')
   \<and> straight (Print (''Error: '' @ str (OtherException ''[Errno 32] Broken pipe''))
                # failure_shots VerifyFix)
        (butlast (drop (Suc 9) (run (program VerifyFix) error_page)))"
proof -
  have h1: "unguarded VerifyApp (Goto url None)"
    by (simp add: unguarded_def outside_body_def failure_shots_def url_def)
  have h2: "2 < length (run (program VerifyApp) server_down)"
    by (simp add: run_verify_app_server_down)
  have h3: "run (program VerifyApp) server_down ! 2
       = Failed (Goto url None) (OtherException ''net::ERR_CONNECTION_REFUSED'')"
    by (simp add: run_verify_app_server_down url_def)
  have h4: "is_Exception (OtherException ''net::ERR_CONNECTION_REFUSED'')" by simp
  have k1: "unguarded VerifyApp (Print ''Auth screen not found or already logged in'')"
    by (simp add: unguarded_def outside_body_def failure_shots_def)
  have k2: "5 < length (run (program VerifyApp) stdout_closed)"
    by (simp add: run_verify_app_stdout_closed)
  have k3: "run (program VerifyApp) stdout_closed ! 5
       = Failed (Print ''Auth screen not found or already logged in'')
           (OtherException ''[Errno 9] Bad file descriptor'')"
    by (simp add: run_verify_app_stdout_closed)
  have k4: "is_Exception (OtherException ''[Errno 9] Bad file descriptor'')" by simp
  have m1: "0 < (9::nat) \<and> run (program VerifyFix) error_page ! (9 - 1) = Did Content"
    by (simp add: run_verify_fix_error_page)
  have m2: "9 < length (run (program VerifyFix) error_page)"
    by (simp add: run_verify_fix_error_page)
  have m3: "run (program VerifyFix) error_page ! 9
       = Failed (Print ''Error: 404 Not Found'') (OtherException ''[Errno 32] Broken pipe'')"
    by (simp add: run_verify_fix_error_page)
  have m4: "is_Exception (OtherException ''[Errno 32] Broken pipe'')" by simp
  from unguarded_failure_reaches_handler[OF disjI1[OF h1] h2 h3]
    unguarded_failure_reaches_handler[OF disjI1[OF k1] k2 k3]
    unguarded_failure_reaches_handler[OF disjI2[OF m1] m2 m3]
    h1 h2 h3 h4 k1 k3 k4 m1 m3 m4
  show ?thesis by blast
qed

end
